theory Spec2Isabelle
  imports Main
begin

section \<open>Python values and exceptions\<close>

text \<open>
  The exceptions the sources raise or catch. \<open>except Exception\<close> catches every
  exception whose class derives from \<open>Exception\<close>; \<open>SystemExit\<close>,
  \<open>KeyboardInterrupt\<close> and \<open>GeneratorExit\<close> derive from \<open>BaseException\<close>
  only and pass through such a clause.
\<close>

datatype py_exception =
    OSError
  | EOFError
  | BrokenPipeError
  | AttributeError
  | AssertionError
  | StopIteration
  | ValueError
  | RuntimeError
  | SystemExit
  | KeyboardInterrupt
  | GeneratorExit

fun is_Exception :: "py_exception \<Rightarrow> bool" where
  "is_Exception SystemExit = False"
| "is_Exception KeyboardInterrupt = False"
| "is_Exception GeneratorExit = False"
| "is_Exception _ = True"

text \<open>The objects that travel over a pipe or are stored in the environment.\<close>

datatype pyobj = PStr string | PBool bool | PInt int | PNone

section \<open>utils.py: StatefulListIterator\<close>

text \<open>
  \<^verbatim>\<open>
  class StatefulListIterator(Collection[TItemType]):
      def __init__(self, items):
          self._items = items
          self._item_count = len(items)
          self._item_cycle = cycle(self._items)
      def __len__(self):  return self._item_count
      def __iter__(self): return islice(self._item_cycle, self._item_count)
  \<close>
  The object owns one \<open>itertools.cycle\<close>; every \<open>__iter__\<close> wraps that same
  cycle in a fresh \<open>islice\<close>. The cycle's state is the index of the element it
  yields next; an \<open>islice\<close> is the number of elements it may still draw.
\<close>

record 'a StatefulListIterator =
  items :: "'a list"
  item_count :: nat
  item_cycle :: nat

definition StatefulListIterator_init :: "'a list \<Rightarrow> 'a StatefulListIterator" where
  "StatefulListIterator_init xs = \<lparr>items = xs, item_count = length xs, item_cycle = 0\<rparr>"

definition StatefulListIterator_len :: "'a StatefulListIterator \<Rightarrow> nat" where
  "StatefulListIterator_len s = item_count s"

definition StatefulListIterator_contains :: "'a StatefulListIterator \<Rightarrow> 'a \<Rightarrow> bool" where
  "StatefulListIterator_contains s x = (x \<in> set (items s))"

text \<open>\<open>next\<close> on the cycle: an empty list gives an exhausted cycle.\<close>

definition cycle_next :: "'a StatefulListIterator \<Rightarrow> (py_exception + 'a) \<times> 'a StatefulListIterator" where
  "cycle_next s =
     (if items s = [] then (Inl StopIteration, s)
      else (Inr (items s ! item_cycle s),
            s\<lparr>item_cycle := Suc (item_cycle s) mod length (items s)\<rparr>))"

text \<open>\<open>__iter__\<close>: a new \<open>islice\<close> over the shared cycle; nothing is drawn yet.\<close>

definition StatefulListIterator_iter :: "'a StatefulListIterator \<Rightarrow> nat" where
  "StatefulListIterator_iter s = item_count s"

text \<open>\<open>next\<close> on an \<open>islice\<close> with \<open>r\<close> elements left.\<close>

definition islice_next ::
  "nat \<Rightarrow> 'a StatefulListIterator \<Rightarrow> (py_exception + 'a) \<times> nat \<times> 'a StatefulListIterator" where
  "islice_next r s =
     (if r = 0 then (Inl StopIteration, r, s)
      else (case cycle_next s of
              (Inl e, s') \<Rightarrow> (Inl e, 0, s')
            | (Inr x, s') \<Rightarrow> (Inr x, r - 1, s')))"

text \<open>
  \<open>pull k\<close>: call \<open>next\<close> on the iterator \<open>k\<close> times, stopping early at
  \<open>StopIteration\<close>; returns what was yielded.
\<close>

fun pull :: "nat \<Rightarrow> nat \<Rightarrow> 'a StatefulListIterator \<Rightarrow> 'a list \<times> nat \<times> 'a StatefulListIterator" where
  "pull 0 r s = ([], r, s)"
| "pull (Suc k) r s =
     (case islice_next r s of
        (Inl e, r', s') \<Rightarrow> ([], r', s')
      | (Inr x, r', s') \<Rightarrow> (case pull k r' s' of (xs, r'', s'') \<Rightarrow> (x # xs, r'', s'')))"

text \<open>\<open>list(iter(obj))\<close>: one whole pass, drawn until \<open>StopIteration\<close>.\<close>

definition full_pass :: "'a StatefulListIterator \<Rightarrow> 'a list \<times> 'a StatefulListIterator" where
  "full_pass s =
     (case pull (Suc (StatefulListIterator_iter s)) (StatefulListIterator_iter s) s of
        (xs, r, s') \<Rightarrow> (xs, s'))"

text \<open>
  Earlier use of the object: for each \<open>k\<close> of the list, an iterator was obtained and
  \<open>next\<close> was called on it \<open>k\<close> times.
\<close>

fun earlier_passes :: "nat list \<Rightarrow> 'a StatefulListIterator \<Rightarrow> 'a StatefulListIterator" where
  "earlier_passes [] s = s"
| "earlier_passes (k # ks) s =
     (case pull k (StatefulListIterator_iter s) s of (xs, r, s') \<Rightarrow> earlier_passes ks s')"

text \<open>The number of elements those earlier passes drew from the cycle.\<close>

fun drawn :: "nat \<Rightarrow> nat list \<Rightarrow> nat" where
  "drawn n [] = 0"
| "drawn n (k # ks) = min k n + drawn n ks"

section \<open>utils.py: Event\<close>

text \<open>
  \<^verbatim>\<open>
  class Event(Generic[TEventType]):
      def __init__(self):                 self._handlers = []
      def register_handler(self, handler): self._handlers.append(handler)
      def fire(self, event, continue_after_failure=True) -> bool:
          ret_val = True
          for handler in self._handlers:
              try:
                  handler(event)
              except Exception:
                  ret_val = False
                  if not continue_after_failure:
                      raise
          return ret_val
  \<close>
  A handler is caller code: it may change the caller's world \<open>'w\<close> and it may raise.
  Its result is the exception it raised, if any, with the world it left behind.
\<close>

type_synonym ('e, 'w) handler = "'e \<Rightarrow> 'w \<Rightarrow> py_exception option \<times> 'w"

record ('e, 'w) Event =
  handlers :: "('e, 'w) handler list"

definition Event_init :: "('e, 'w) Event" where
  "Event_init = \<lparr>handlers = []\<rparr>"

definition register_handler :: "('e, 'w) Event \<Rightarrow> ('e, 'w) handler \<Rightarrow> ('e, 'w) Event" where
  "register_handler ev h = ev\<lparr>handlers := handlers ev @ [h]\<rparr>"

text \<open>
  The \<open>for\<close> loop of \<open>fire\<close>, with \<open>ret_val\<close> as accumulator. An exception that
  \<open>except Exception\<close> does not catch leaves the loop at once, under either policy.
\<close>

fun fire_loop ::
  "('e, 'w) handler list \<Rightarrow> 'e \<Rightarrow> bool \<Rightarrow> bool \<Rightarrow> 'w \<Rightarrow> (py_exception + bool) \<times> 'w" where
  "fire_loop [] event continue_after_failure ret_val w = (Inr ret_val, w)"
| "fire_loop (handler # rest) event continue_after_failure ret_val w =
     (case handler event w of
        (None, w') \<Rightarrow> fire_loop rest event continue_after_failure ret_val w'
      | (Some ex, w') \<Rightarrow>
          if is_Exception ex then
            (if \<not> continue_after_failure then (Inl ex, w')
             else fire_loop rest event continue_after_failure False w')
          else (Inl ex, w'))"

definition fire :: "('e, 'w) Event \<Rightarrow> 'e \<Rightarrow> bool \<Rightarrow> 'w \<Rightarrow> (py_exception + bool) \<times> 'w" where
  "fire ev event continue_after_failure w =
     fire_loop (handlers ev) event continue_after_failure True w"

text \<open>
  The reference the claims compare \<open>fire\<close> with: every handler of the list invoked once,
  in list order, whatever it raises; the outcomes in that order and the final world.
\<close>

fun invoke_all :: "('e, 'w) handler list \<Rightarrow> 'e \<Rightarrow> 'w \<Rightarrow> py_exception option list \<times> 'w" where
  "invoke_all [] event w = ([], w)"
| "invoke_all (h # hs) event w =
     (case h event w of (r, w') \<Rightarrow>
        (case invoke_all hs event w' of (rs, w'') \<Rightarrow> (r # rs, w'')))"

definition returned :: "py_exception option \<Rightarrow> bool" where
  "returned r = (r = None)"

definition returned_or_caught :: "py_exception option \<Rightarrow> bool" where
  "returned_or_caught r = (case r of None \<Rightarrow> True | Some ex \<Rightarrow> is_Exception ex)"

text \<open>Two handlers for concrete runs: the world is the list of the handlers invoked.\<close>

definition logging_handler :: "string \<Rightarrow> (unit, string list) handler" where
  "logging_handler name event w = (None, w @ [name])"

definition raising_handler :: "string \<Rightarrow> py_exception \<Rightarrow> (unit, string list) handler" where
  "raising_handler name ex event w = (Some ex, w @ [name])"

section \<open>utils.py: ThreadLocalValue and ThreadLocalMember\<close>

text \<open>
  \<^verbatim>\<open>
  class ThreadLocalValue(threading.local, Generic[TValueType]):
      def __init__(self, init_value=None):
          self.value = init_value
  \<close>
  A subclass of \<open>threading.local\<close> keeps the arguments of its construction and runs
  \<open>__init__\<close> with them again in every other thread, on that thread's first access to
  the object. So the object is the saved argument and one \<open>value\<close> per thread that
  touched it.
\<close>

type_synonym thread_id = nat

record 'v ThreadLocalValue =
  init_args :: 'v
  thread_values :: "thread_id \<rightharpoonup> 'v"

definition ThreadLocalValue_init :: "thread_id \<Rightarrow> 'v \<Rightarrow> 'v ThreadLocalValue" where
  "ThreadLocalValue_init t init_value =
     \<lparr>init_args = init_value, thread_values = [t \<mapsto> init_value]\<rparr>"

text \<open>\<open>lv.value\<close> read in thread \<open>t\<close>.\<close>

definition get_value :: "thread_id \<Rightarrow> 'v ThreadLocalValue \<Rightarrow> 'v \<times> 'v ThreadLocalValue" where
  "get_value t lv =
     (case thread_values lv t of
        Some v \<Rightarrow> (v, lv)
      | None \<Rightarrow> (init_args lv, lv\<lparr>thread_values := (thread_values lv)(t \<mapsto> init_args lv)\<rparr>))"

text \<open>\<open>lv.value = v\<close> in thread \<open>t\<close>.\<close>

definition set_value :: "thread_id \<Rightarrow> 'v \<Rightarrow> 'v ThreadLocalValue \<Rightarrow> 'v ThreadLocalValue" where
  "set_value t v lv = lv\<lparr>thread_values := (thread_values lv)(t \<mapsto> v)\<rparr>"

text \<open>
  \<^verbatim>\<open>
  class ThreadLocalMember(Generic[TValueType]):
      def __init__(self, init_value=...):
          self._init_value = init_value
      def _get_or_set_lv(self, instance, init_value):
          try:
              lv = getattr(instance, self._private_name)
          except AttributeError:
              lv = ThreadLocalValue(init_value)
              setattr(instance, self._private_name, lv)
          return lv
      def __get__(self, instance, owner):
          if self._init_value is not ...:
              lv = self._get_or_set_lv(instance, self._init_value)
          else:
              if not hasattr(instance, self._private_name):
                  raise AttributeError(...)
              lv = getattr(instance, self._private_name)
          return lv.value
      def __set__(self, instance, value):
          if self._init_value is ...:
              init_value = value
          else:
              init_value = self._init_value
          lv = self._get_or_set_lv(instance, init_value)
          lv.value = value
  \<close>
  \<open>init_value = None\<close> stands for the Ellipsis (no initial value declared). The private
  attribute of the instance is absent (\<open>None\<close>) or holds the \<open>ThreadLocalValue\<close>.
\<close>

record 'v ThreadLocalMember =
  init_value :: "'v option"

type_synonym 'v private_attr = "'v ThreadLocalValue option"

definition get_or_set_lv ::
  "'v private_attr \<Rightarrow> thread_id \<Rightarrow> 'v \<Rightarrow> 'v ThreadLocalValue \<times> 'v private_attr" where
  "get_or_set_lv inst t init =
     (case inst of
        Some lv \<Rightarrow> (lv, inst)
      | None \<Rightarrow> (ThreadLocalValue_init t init, Some (ThreadLocalValue_init t init)))"

definition ThreadLocalMember_get ::
  "'v ThreadLocalMember \<Rightarrow> 'v private_attr \<Rightarrow> thread_id \<Rightarrow> (py_exception + 'v) \<times> 'v private_attr" where
  "ThreadLocalMember_get m inst t =
     (case init_value m of
        Some d \<Rightarrow>
          (case get_or_set_lv inst t d of (lv, inst') \<Rightarrow>
             (case get_value t lv of (v, lv') \<Rightarrow> (Inr v, Some lv')))
      | None \<Rightarrow>
          (case inst of
             None \<Rightarrow> (Inl AttributeError, inst)
           | Some lv \<Rightarrow> (case get_value t lv of (v, lv') \<Rightarrow> (Inr v, Some lv'))))"

definition ThreadLocalMember_set ::
  "'v ThreadLocalMember \<Rightarrow> 'v private_attr \<Rightarrow> thread_id \<Rightarrow> 'v \<Rightarrow> 'v private_attr" where
  "ThreadLocalMember_set m inst t v =
     (let init = (case init_value m of None \<Rightarrow> v | Some d \<Rightarrow> d)
      in case get_or_set_lv inst t init of (lv, inst') \<Rightarrow> Some (set_value t v lv))"

text \<open>
  A history of one instance's attribute: reads and assignments, each by some thread, one
  after the other, starting from a fresh instance. A read that raises changes nothing.
\<close>

datatype 'v access = Read thread_id | Assign thread_id 'v

fun perform :: "'v ThreadLocalMember \<Rightarrow> 'v private_attr \<Rightarrow> 'v access \<Rightarrow> 'v private_attr" where
  "perform m inst (Read t) = snd (ThreadLocalMember_get m inst t)"
| "perform m inst (Assign t v) = ThreadLocalMember_set m inst t v"

definition history :: "'v ThreadLocalMember \<Rightarrow> 'v access list \<Rightarrow> 'v private_attr" where
  "history m ops = foldl (perform m) None ops"

fun assigned_in :: "thread_id \<Rightarrow> 'v access list \<Rightarrow> bool" where
  "assigned_in t [] = False"
| "assigned_in t (Read u # ops) = assigned_in t ops"
| "assigned_in t (Assign u v # ops) = (u = t \<or> assigned_in t ops)"

fun first_assigned :: "'v access list \<Rightarrow> 'v option" where
  "first_assigned [] = None"
| "first_assigned (Read u # ops) = first_assigned ops"
| "first_assigned (Assign u v # ops) = Some v"

text \<open>
  The invariant of a history: the stored object was built with \<open>d\<close>, and every thread
  outside \<open>A\<close> (the threads that assigned) has no value yet or has \<open>d\<close>.
\<close>

definition untouched_ok :: "'v \<Rightarrow> (thread_id \<Rightarrow> bool) \<Rightarrow> 'v private_attr \<Rightarrow> bool" where
  "untouched_ok d A inst =
     (case inst of
        None \<Rightarrow> True
      | Some lv \<Rightarrow>
          init_args lv = d \<and>
          (\<forall>t. A t \<or> thread_values lv t = None \<or> thread_values lv t = Some d))"

section \<open>singleprocesshandler.py: the control channel\<close>

definition STOP_MESSAGE :: string where
  "STOP_MESSAGE = ''STOP''"

definition TEST_ALIVE_MESSAGE :: string where
  "TEST_ALIVE_MESSAGE = ''TEST_ALIVE''"

definition INSTANCE_INDEX_ENV_VAR :: string where
  "INSTANCE_INDEX_ENV_VAR = ''MULTI_PROCESS_INSTANCE_INDEX''"

text \<open>
  What the code does to the world outside it, in the order it does it: each call on a
  pipe, a process, the worker, the environment or the caller's callback leaves one entry.
\<close>

datatype signal = SIGTERM | SIGKILL

datatype effect =
    Send pyobj
  | Close
  | ProcessStart
  | ProcessJoin
  | Signal signal
  | ExitCallback
  | CreateService
  | SetEnv string string
  | ThreadStart
  | ServiceStart
  | ServiceStop
  | LoggingShutdown

text \<open>
  One endpoint of \<open>multiprocessing.Pipe()\<close>. \<open>send\<close> and \<open>recv\<close> first check the
  handle and raise \<open>OSError\<close> on a closed one; \<open>close\<close> on a closed endpoint does
  nothing more. What arrives at an open endpoint is the peer's doing and is an argument
  of \<open>recv\<close>.
\<close>

record Connection =
  closed :: bool

definition Connection_send :: "Connection \<Rightarrow> py_exception option" where
  "Connection_send c = (if closed c then Some OSError else None)"

definition Connection_recv :: "Connection \<Rightarrow> py_exception + pyobj \<Rightarrow> py_exception + pyobj" where
  "Connection_recv c arriving = (if closed c then Inl OSError else arriving)"

definition Connection_close :: "Connection \<Rightarrow> Connection" where
  "Connection_close c = c\<lparr>closed := True\<rparr>"

section \<open>singleprocesshandler.py: the child process\<close>

text \<open>
  Modelled from the spec: \<open>BaseService\<close> (baseservice/base_service.py) is not among the
  sources. The spec gives the worker three operations: a blocking run, \<open>stop\<close>
  (idempotent, callable from another thread) and the boolean query \<open>is_alive\<close>. The
  worker here is its aliveness flag and the number of stop requests it has received;
  its run is an argument of the child's entry point.
\<close>

record service =
  is_alive :: bool
  stop_requests :: nat

definition service_stop :: "service \<Rightarrow> service" where
  "service_stop svc = svc\<lparr>stop_requests := Suc (stop_requests svc)\<rparr>"

text \<open>
  One round of the listener's \<open>while True\<close>: what \<open>pipe.recv()\<close> gives (a message, or
  the exception it raises, \<open>EOFError\<close> when the parent's endpoint is gone), the worker's
  aliveness at that moment (the worker runs on the main line meanwhile), and the
  exception that answering raises, if any (the peer gone between the probe and the
  reply).
\<close>

record turn =
  incoming :: "py_exception + pyobj"
  alive_now :: bool
  reply_fault :: "py_exception option"

record listener =
  inner_service :: service
  pipe :: Connection
  effects :: "effect list"

datatype loop_exit = Break | Raised py_exception

text \<open>
  \<^verbatim>\<open>
  while True:
      message = pipe.recv()
      if message == _TEST_ALIVE_MESSAGE:
          pipe.send(inner_service.is_alive)
      elif message == _STOP_MESSAGE:
          break
      else:
          pass
  \<close>
  With no round left the listener is blocked in \<open>recv\<close>: the result \<open>None\<close>.
\<close>

fun listen_loop :: "listener \<Rightarrow> turn list \<Rightarrow> loop_exit option \<times> listener" where
  "listen_loop l [] = (None, l)"
| "listen_loop l (t # ts) =
     (let l = l\<lparr>inner_service := (inner_service l)\<lparr>is_alive := alive_now t\<rparr>\<rparr> in
      case Connection_recv (pipe l) (incoming t) of
        Inl e \<Rightarrow> (Some (Raised e), l)
      | Inr message \<Rightarrow>
          if message = PStr TEST_ALIVE_MESSAGE then
            (case reply_fault t of
               Some e \<Rightarrow> (Some (Raised e), l)
             | None \<Rightarrow>
                 (case Connection_send (pipe l) of
                    Some e \<Rightarrow> (Some (Raised e), l)
                  | None \<Rightarrow>
                      listen_loop
                        (l\<lparr>effects := effects l @ [Send (PBool (is_alive (inner_service l)))]\<rparr>) ts))
          else if message = PStr STOP_MESSAGE then (Some Break, l)
          else listen_loop l ts)"

datatype thread_status = Blocked | Returned | Died py_exception

text \<open>
  \<^verbatim>\<open>
  def _listen_to_pipe(inner_service, pipe):
      try:
          while True: ...
      except Exception:
          pass
      finally:
          inner_service.stop()
          pipe.close()
  \<close>
  The thread is \<open>Blocked\<close> while the loop waits, has \<open>Returned\<close> when the function
  returned, and has \<open>Died\<close> when an exception left the function.
\<close>

definition listen_to_pipe :: "service \<Rightarrow> Connection \<Rightarrow> turn list \<Rightarrow> thread_status \<times> listener" where
  "listen_to_pipe svc p ts =
     (case listen_loop \<lparr>inner_service = svc, pipe = p, effects = []\<rparr> ts of
        (None, l) \<Rightarrow> (Blocked, l)
      | (Some ex, l) \<Rightarrow>
          (let l' = l\<lparr>inner_service := service_stop (inner_service l),
                      pipe := Connection_close (pipe l),
                      effects := effects l @ [ServiceStop, Close]\<rparr>
           in case ex of
                Break \<Rightarrow> (Returned, l')
              | Raised e \<Rightarrow> if is_Exception e then (Returned, l') else (Died e, l')))"

text \<open>The rounds that end the loop, and the rounds that do not.\<close>

definition ends_loop :: "turn \<Rightarrow> bool" where
  "ends_loop t =
     (case incoming t of
        Inl e \<Rightarrow> True
      | Inr m \<Rightarrow>
          if m = PStr TEST_ALIVE_MESSAGE then reply_fault t \<noteq> None
          else m = PStr STOP_MESSAGE)"

definition benign :: "turn \<Rightarrow> bool" where
  "benign t = (\<not> ends_loop t)"

fun replies :: "turn list \<Rightarrow> effect list" where
  "replies [] = []"
| "replies (t # ts) =
     (if incoming t = Inr (PStr TEST_ALIVE_MESSAGE) then Send (PBool (alive_now t)) # replies ts
      else replies ts)"

text \<open>Rounds for concrete runs.\<close>

definition stop_turn :: turn where
  "stop_turn = \<lparr>incoming = Inr (PStr ''STOP''), alive_now = True, reply_fault = None\<rparr>"

definition probe_turn :: "bool \<Rightarrow> turn" where
  "probe_turn b = \<lparr>incoming = Inr (PStr ''TEST_ALIVE''), alive_now = b, reply_fault = None\<rparr>"

definition eof_turn :: turn where
  "eof_turn = \<lparr>incoming = Inl EOFError, alive_now = True, reply_fault = None\<rparr>"

definition broken_reply_turn :: turn where
  "broken_reply_turn =
     \<lparr>incoming = Inr (PStr ''TEST_ALIVE''), alive_now = True, reply_fault = Some BrokenPipeError\<rparr>"

definition noise_turn :: turn where
  "noise_turn = \<lparr>incoming = Inr (PInt 7), alive_now = True, reply_fault = None\<rparr>"

text \<open>\<open>str(instance_index)\<close>: the decimal digits of a Python int.\<close>

definition digit :: "nat \<Rightarrow> char" where
  "digit n = ''0123456789'' ! n"

fun str_nat :: "nat \<Rightarrow> string" where
  "str_nat n = (if n < 10 then [digit n] else str_nat (n div 10) @ [digit (n mod 10)])"

declare str_nat.simps [simp del]

definition str :: "int \<Rightarrow> string" where
  "str i = (if i < 0 then CHR ''-'' # str_nat (nat (- i)) else str_nat (nat i))"

text \<open>
  \<^verbatim>\<open>
  def _start_service_and_listen_queue(service_factory, child_pipe, instance_index):
      try:
          service = service_factory.create_service()
          os.environ[INSTANCE_INDEX_ENV_VAR] = str(instance_index)
          def _listen_to_pipe(inner_service, pipe): ...
          t = threading.Thread(target=_listen_to_pipe, args=(service, child_pipe), daemon=True)
          t.start()
          service.start()
      except Exception as ex:
          logging.shutdown()
          raise
  \<close>
  The factory and the worker's \<open>start\<close> are the caller's code: both see the process
  environment and may raise. The listener runs in its own thread; an exception that
  leaves its function ends that thread only.
\<close>

type_synonym environ = "string \<rightharpoonup> string"

record child =
  os_environ :: environ
  worker :: "service option"
  main_effects :: "effect list"
  raised :: "py_exception option"
  listener_thread :: "(thread_status \<times> listener) option"

definition start_service_and_listen_queue ::
  "(environ \<Rightarrow> py_exception + service) \<Rightarrow> (environ \<Rightarrow> service \<Rightarrow> py_exception option) \<Rightarrow>
   Connection \<Rightarrow> int \<Rightarrow> environ \<Rightarrow> turn list \<Rightarrow> child" where
  "start_service_and_listen_queue create_service service_start child_pipe instance_index env ts =
     (case create_service env of
        Inl e \<Rightarrow>
          \<lparr>os_environ = env, worker = None,
           main_effects = CreateService # (if is_Exception e then [LoggingShutdown] else []),
           raised = Some e, listener_thread = None\<rparr>
      | Inr svc \<Rightarrow>
          (let env' = env(INSTANCE_INDEX_ENV_VAR \<mapsto> str instance_index);
               t = listen_to_pipe svc child_pipe ts;
               r = service_start env' svc
           in \<lparr>os_environ = env', worker = Some svc,
               main_effects =
                 [CreateService, SetEnv INSTANCE_INDEX_ENV_VAR (str instance_index), ThreadStart,
                  ServiceStart] @
                 (case r of
                    None \<Rightarrow> []
                  | Some e \<Rightarrow> if is_Exception e then [LoggingShutdown] else []),
               raised = r, listener_thread = Some t\<rparr>))"

text \<open>
  A factory for concrete runs: the worker it builds reports itself alive exactly when
  it found the instance index in the environment at construction.
\<close>

definition index_reading_factory :: "environ \<Rightarrow> py_exception + service" where
  "index_reading_factory env =
     Inr \<lparr>is_alive = (env INSTANCE_INDEX_ENV_VAR \<noteq> None), stop_requests = 0\<rparr>"

definition quiet_start :: "environ \<Rightarrow> service \<Rightarrow> py_exception option" where
  "quiet_start env svc = None"

section \<open>singleprocesshandler.py: SingleProcessHandler\<close>

text \<open>
  A \<open>multiprocessing.Process\<close>: created, started and running, or exited.
  \<open>is_alive()\<close> is true for a running one only.
\<close>

datatype process_phase = Initial | Started | Exited

record Process =
  phase :: process_phase

definition Process_is_alive :: "Process \<Rightarrow> bool" where
  "Process_is_alive p = (phase p = Started)"

record SingleProcessHandler =
  instance_index :: int
  live_check_interval :: nat
  live_check_timeout :: nat
  liveness_thread :: bool
  stop_was_called :: bool
  parent_pipe :: "Connection option"
  process :: "Process option"
  trace :: "effect list"
  child_end_closed :: bool

text \<open>
  \<open>child_end_closed\<close> is not an attribute of the class: it is the operating system's
  knowledge of the channel, true once the child's endpoint is gone (closed by the
  listener's \<open>finally\<close>, or with the child's exit). No method reads it; a write to the
  parent endpoint then fails with \<open>BrokenPipeError\<close>. \<open>start\<close> opens a fresh channel.
\<close>

definition SingleProcessHandler_init :: "int \<Rightarrow> nat \<Rightarrow> nat \<Rightarrow> SingleProcessHandler" where
  "SingleProcessHandler_init idx interval timeout =
     \<lparr>instance_index = idx, live_check_interval = interval, live_check_timeout = timeout,
      liveness_thread = False, stop_was_called = False, parent_pipe = None, process = None,
      trace = [], child_end_closed = False\<rparr>"

definition emit :: "effect \<Rightarrow> SingleProcessHandler \<Rightarrow> SingleProcessHandler" where
  "emit e h = h\<lparr>trace := trace h @ [e]\<rparr>"

text \<open>
  \<open>self._parent_pipe.send(message)\<close>: the handle is checked first (\<open>OSError\<close> on a
  closed endpoint); the write itself fails when the child's endpoint is gone.
\<close>

definition parent_pipe_send ::
  "pyobj \<Rightarrow> SingleProcessHandler \<Rightarrow> py_exception option \<times> SingleProcessHandler" where
  "parent_pipe_send message h =
     (case parent_pipe h of
        None \<Rightarrow> (Some AttributeError, h)
      | Some c \<Rightarrow>
          (case Connection_send c of
             Some e \<Rightarrow> (Some e, h)
           | None \<Rightarrow>
               if child_end_closed h then (Some BrokenPipeError, h)
               else (None, emit (Send message) h)))"

text \<open>
  \<^verbatim>\<open>
  def stop(self):
      self._stop_was_called.set()
      if self._parent_pipe is not None:
          self._parent_pipe.send(_STOP_MESSAGE)
  \<close>
\<close>

definition stop :: "SingleProcessHandler \<Rightarrow> py_exception option \<times> SingleProcessHandler" where
  "stop h =
     (let h = h\<lparr>stop_was_called := True\<rparr> in
      if parent_pipe h \<noteq> None then parent_pipe_send (PStr STOP_MESSAGE) h
      else (None, h))"

text \<open>
  \<^verbatim>\<open>
  def is_alive(self):
      return self._process is not None and self._process.is_alive()
  def terminate(self):
      if self.is_alive():
          self._process.terminate()
  def kill(self):
      if self.is_alive():
          self._process.kill()
  \<close>
  \<open>self._process.terminate()\<close> on \<open>None\<close> or on a process never started raises
  \<open>AttributeError\<close>; on an exited one it does nothing.
\<close>

definition SingleProcessHandler_is_alive :: "SingleProcessHandler \<Rightarrow> bool" where
  "SingleProcessHandler_is_alive h =
     (case process h of None \<Rightarrow> False | Some p \<Rightarrow> Process_is_alive p)"

definition process_signal ::
  "signal \<Rightarrow> SingleProcessHandler \<Rightarrow> py_exception option \<times> SingleProcessHandler" where
  "process_signal sig h =
     (case process h of
        None \<Rightarrow> (Some AttributeError, h)
      | Some p \<Rightarrow>
          (case phase p of
             Initial \<Rightarrow> (Some AttributeError, h)
           | Started \<Rightarrow> (None, emit (Signal sig) h)
           | Exited \<Rightarrow> (None, h)))"

definition terminate :: "SingleProcessHandler \<Rightarrow> py_exception option \<times> SingleProcessHandler" where
  "terminate h = (if SingleProcessHandler_is_alive h then process_signal SIGTERM h else (None, h))"

definition kill :: "SingleProcessHandler \<Rightarrow> py_exception option \<times> SingleProcessHandler" where
  "kill h = (if SingleProcessHandler_is_alive h then process_signal SIGKILL h else (None, h))"

text \<open>
  \<^verbatim>\<open>
  def _close(self):
      if self._parent_pipe is not None:
          self._parent_pipe.close()
          self._parent_pipe = None
  \<close>
\<close>

definition close :: "SingleProcessHandler \<Rightarrow> SingleProcessHandler" where
  "close h =
     (if parent_pipe h \<noteq> None then (emit Close h)\<lparr>parent_pipe := None\<rparr> else h)"

text \<open>
  \<^verbatim>\<open>
  def _liveness_check(self):
      while not self._stop_was_called.wait(self._live_check_interval):
          alive = False
          if self._parent_pipe is not None and not self._parent_pipe.closed:
              self._parent_pipe.send(_TEST_ALIVE_MESSAGE)
              has_answer = self._parent_pipe.poll(self._live_check_timeout)
              if has_answer:
                  alive = self._parent_pipe.recv()
          if not alive:
              self.stop()
              self.kill()
              break
  \<close>
  One iteration takes what the channel gives after the probe: \<open>None\<close> when \<open>poll\<close>
  times out; \<open>Some (Inr b)\<close> when the boolean \<open>b\<close> arrives in time;
  \<open>Some (Inl e)\<close> when \<open>poll\<close> reports the endpoint readable and \<open>recv\<close> raises
  \<open>e\<close>, as it does with \<open>EOFError\<close> when the child has closed its endpoint without
  answering (end of file makes an endpoint readable). Nothing in \<open>_liveness_check\<close>
  catches an exception, so one raised by \<open>send\<close> or \<open>recv\<close> ends the thread.
\<close>

datatype loop_control = Continue | Exit_loop

definition liveness_probe ::
  "SingleProcessHandler \<Rightarrow> (py_exception + bool) option \<Rightarrow>
   (py_exception + bool) \<times> SingleProcessHandler" where
  "liveness_probe h answer =
     (case parent_pipe h of
        None \<Rightarrow> (Inr False, h)
      | Some c \<Rightarrow>
          if closed c then (Inr False, h)
          else (case parent_pipe_send (PStr TEST_ALIVE_MESSAGE) h of
                  (Some e, h') \<Rightarrow> (Inl e, h')
                | (None, h') \<Rightarrow>
                    (case answer of
                       None \<Rightarrow> (Inr False, h')
                     | Some (Inl e) \<Rightarrow> (Inl e, h')
                     | Some (Inr b) \<Rightarrow> (Inr b, h'))))"

definition liveness_iteration ::
  "SingleProcessHandler \<Rightarrow> (py_exception + bool) option \<Rightarrow>
   (py_exception + loop_control) \<times> SingleProcessHandler" where
  "liveness_iteration h answer =
     (case liveness_probe h answer of
        (Inl e, h1) \<Rightarrow> (Inl e, h1)
      | (Inr alive, h1) \<Rightarrow>
          if \<not> alive then
            (case stop h1 of
               (Some e, h2) \<Rightarrow> (Inl e, h2)
             | (None, h2) \<Rightarrow>
                 (case kill h2 of
                    (Some e, h3) \<Rightarrow> (Inl e, h3)
                  | (None, h3) \<Rightarrow> (Inr Exit_loop, h3)))
          else (Inr Continue, h1))"

text \<open>
  The loop over the answers of successive probes. \<open>wait\<close> returns true, and the loop
  ends, once the stop signal is set; with no answer left the thread is waiting.
\<close>

fun liveness_check ::
  "SingleProcessHandler \<Rightarrow> (py_exception + bool) option list \<Rightarrow>
   thread_status \<times> SingleProcessHandler" where
  "liveness_check h [] = (if stop_was_called h then (Returned, h) else (Blocked, h))"
| "liveness_check h (answer # answers) =
     (if stop_was_called h then (Returned, h)
      else (case liveness_iteration h answer of
              (Inl e, h') \<Rightarrow> (Died e, h')
            | (Inr Exit_loop, h') \<Rightarrow> (Returned, h')
            | (Inr Continue, h') \<Rightarrow> liveness_check h' answers))"

text \<open>
  \<^verbatim>\<open>
  def start(self, exit_callback):
      context = multiprocessing.get_context('spawn')
      self._parent_pipe, child_pipe = context.Pipe()
      self._stop_was_called.clear()
      self._process = context.Process(target=_start_service_and_listen_queue, args=(...))
      self._liveness_thread = threading.Thread(target=self._liveness_check, daemon=True)
      self._liveness_thread.start()
      return self._run_process(exit_callback)
  \<close>
  \<open>start\<close> is the state it leaves; the two threads it launches are \<open>liveness_check\<close>
  and \<open>run_thread\<close>.
\<close>

definition start :: "SingleProcessHandler \<Rightarrow> SingleProcessHandler" where
  "start h =
     h\<lparr>parent_pipe := Some \<lparr>closed = False\<rparr>, stop_was_called := False,
       process := Some \<lparr>phase = Initial\<rparr>, liveness_thread := True,
       child_end_closed := False\<rparr>"

text \<open>
  \<^verbatim>\<open>
  def _run_thread():
      self._process.start()
      self._process.join()
      self._close()
      exit_callback(self)
  \<close>
  \<open>join\<close> returns when the child has exited. The callback is the caller's code: it is
  handed the handler and acts on the caller's world \<open>'w\<close>.
\<close>

definition run_thread ::
  "SingleProcessHandler \<Rightarrow> (SingleProcessHandler \<Rightarrow> 'w \<Rightarrow> 'w) \<Rightarrow> 'w \<Rightarrow>
   py_exception option \<times> SingleProcessHandler \<times> 'w" where
  "run_thread h exit_callback w =
     (case process h of
        None \<Rightarrow> (Some AttributeError, h, w)
      | Some p \<Rightarrow>
          if phase p \<noteq> Initial then (Some AssertionError, h, w)
          else
            (let h1 = (emit ProcessStart h)\<lparr>process := Some (p\<lparr>phase := Started\<rparr>)\<rparr>;
                 h2 = (emit ProcessJoin h1)\<lparr>process := Some (p\<lparr>phase := Exited\<rparr>)\<rparr>;
                 h3 = close h2;
                 h4 = emit ExitCallback h3
             in (None, h4, exit_callback h4 w)))"

text \<open>
  The two blocking statements of \<open>_run_thread\<close> on their own: after
  \<open>self._process.start()\<close> the child runs and the thread waits in \<open>join\<close>, which is
  the state the liveness monitor works in; \<open>join\<close> returns with the child exited.
\<close>

definition process_start ::
  "SingleProcessHandler \<Rightarrow> py_exception option \<times> SingleProcessHandler" where
  "process_start h =
     (case process h of
        None \<Rightarrow> (Some AttributeError, h)
      | Some p \<Rightarrow>
          if phase p \<noteq> Initial then (Some AssertionError, h)
          else (None, (emit ProcessStart h)\<lparr>process := Some (p\<lparr>phase := Started\<rparr>)\<rparr>))"

definition process_join :: "SingleProcessHandler \<Rightarrow> SingleProcessHandler" where
  "process_join h =
     (case process h of
        None \<Rightarrow> h
      | Some p \<Rightarrow> (emit ProcessJoin h)\<lparr>process := Some (p\<lparr>phase := Exited\<rparr>)\<rparr>)"

text \<open>A callback for concrete runs: it counts its invocations.\<close>

definition counting_callback :: "SingleProcessHandler \<Rightarrow> nat \<Rightarrow> nat" where
  "counting_callback h n = Suc n"

section \<open>StatefulListIterator: what a pass yields\<close>

lemma pull_nonempty:
  "items s \<noteq> [] \<Longrightarrow> item_cycle s < length (items s) \<Longrightarrow>
   pull k r s =
     (map (\<lambda>i. items s ! ((item_cycle s + i) mod length (items s))) [0..<min k r],
      r - min k r,
      s\<lparr>item_cycle := (item_cycle s + min k r) mod length (items s)\<rparr>)"
proof (induction k arbitrary: r s)
  case 0
  then show ?case by simp
next
  case (Suc k)
  show ?case
  proof (cases r)
    case 0
    then show ?thesis using Suc.prems by (simp add: islice_next_def)
  next
    case (Suc r')
    let ?n = "length (items s)"
    let ?s' = "s\<lparr>item_cycle := Suc (item_cycle s) mod ?n\<rparr>"
    have step: "islice_next r s = (Inr (items s ! item_cycle s), r', ?s')"
      using Suc Suc.prems by (simp add: islice_next_def cycle_next_def)
    have n0: "0 < ?n" using Suc.prems by simp
    have lt: "item_cycle ?s' < length (items ?s')" using n0 by simp
    have ne: "items ?s' \<noteq> []" using Suc.prems by simp
    note IH = Suc.IH [OF ne lt, of r']
    have idx: "\<And>i. (Suc (item_cycle s) mod ?n + i) mod ?n = (item_cycle s + Suc i) mod ?n"
      by (simp add: mod_Suc_eq mod_add_left_eq)
    have m: "min (Suc k) r = Suc (min k r')" using Suc by simp
    have upt: "[0..<Suc (min k r')] = 0 # map Suc [0..<min k r']"
      by (simp add: upt_conv_Cons map_Suc_upt del: upt_Suc)
    show ?thesis
      unfolding pull.simps step m upt
      using IH Suc.prems Suc
      by (simp add: idx o_def mod_Suc_eq mod_add_left_eq del: upt_Suc)
  qed
qed

lemma pull_empty: "items s = [] \<Longrightarrow> pull k r s = ([], (if k = 0 then r else 0), s)"
  by (cases k) (auto simp: islice_next_def cycle_next_def)

lemma rotate_as_map:
  "c < length xs \<Longrightarrow> map (\<lambda>i. xs ! ((c + i) mod length xs)) [0..<length xs] = rotate c xs"
  by (rule nth_equalityI) (simp_all add: nth_rotate)

lemma earlier_passes_nonempty:
  "xs \<noteq> [] \<Longrightarrow> items s = xs \<Longrightarrow> item_count s = length xs \<Longrightarrow> item_cycle s < length xs \<Longrightarrow>
   earlier_passes ks s = s\<lparr>item_cycle := (item_cycle s + drawn (length xs) ks) mod length xs\<rparr>"
proof (induction ks arbitrary: s)
  case Nil
  then show ?case by simp
next
  case (Cons k ks)
  let ?n = "length xs"
  let ?s' = "s\<lparr>item_cycle := (item_cycle s + min k ?n) mod ?n\<rparr>"
  have p: "pull k (StatefulListIterator_iter s) s =
      (map (\<lambda>i. items s ! ((item_cycle s + i) mod ?n)) [0..<min k ?n], ?n - min k ?n, ?s')"
    using Cons.prems pull_nonempty [of s k "item_count s"]
    by (simp add: StatefulListIterator_iter_def)
  have "earlier_passes ks ?s' = ?s'\<lparr>item_cycle := (item_cycle ?s' + drawn ?n ks) mod ?n\<rparr>"
    using Cons.prems by (intro Cons.IH) simp_all
  then show ?case
    using p by (simp add: mod_add_left_eq add.assoc)
qed

lemma earlier_passes_empty: "items s = [] \<Longrightarrow> earlier_passes ks s = s"
  by (induction ks) (simp_all add: pull_empty)

lemma full_pass_nonempty:
  "xs \<noteq> [] \<Longrightarrow> items s = xs \<Longrightarrow> item_count s = length xs \<Longrightarrow> item_cycle s < length xs \<Longrightarrow>
   full_pass s = (rotate (item_cycle s) xs, s)"
  using pull_nonempty [of s "Suc (length xs)" "length xs"]
  by (simp add: full_pass_def StatefulListIterator_iter_def rotate_as_map del: upt_Suc)

lemma full_pass_empty: "items s = [] \<Longrightarrow> full_pass s = ([], s)"
  by (simp add: full_pass_def pull_empty del: pull.simps)

lemma drawn_zero: "drawn 0 ks = 0"
  by (induction ks) simp_all

lemma full_pass_after:
  "full_pass (earlier_passes ks (StatefulListIterator_init xs)) =
     (rotate (drawn (length xs) ks) xs,
      (StatefulListIterator_init xs)\<lparr>item_cycle := drawn (length xs) ks mod length xs\<rparr>)"
proof (cases "xs = []")
  case True
  then show ?thesis
    by (simp add: earlier_passes_empty full_pass_empty StatefulListIterator_init_def drawn_zero)
next
  case False
  let ?s = "StatefulListIterator_init xs"
  let ?s' = "?s\<lparr>item_cycle := drawn (length xs) ks mod length xs\<rparr>"
  have e: "earlier_passes ks ?s = ?s'"
    using False earlier_passes_nonempty [of xs ?s ks]
    by (simp add: StatefulListIterator_init_def)
  have "full_pass ?s' = (rotate (item_cycle ?s') xs, ?s')"
    using False by (intro full_pass_nonempty) (simp_all add: StatefulListIterator_init_def)
  then show ?thesis
    using e by (simp add: rotate_conv_mod [symmetric])
qed

lemma len_after:
  "StatefulListIterator_len (earlier_passes ks (StatefulListIterator_init xs)) = length xs"
proof (cases "xs = []")
  case True
  then show ?thesis
    by (simp add: earlier_passes_empty StatefulListIterator_len_def StatefulListIterator_init_def)
next
  case False
  then show ?thesis
    using earlier_passes_nonempty [of xs "StatefulListIterator_init xs" ks]
    by (simp add: StatefulListIterator_len_def StatefulListIterator_init_def)
qed

lemma drawn_exhausted: "list_all (\<lambda>k. n \<le> k) ks \<Longrightarrow> drawn n ks = n * length ks"
  by (induction ks) (simp_all add: min_def)

text \<open>
  Claim C8, as the code has it. \<open>len()\<close> is the number of items. Every iterator the
  object hands out draws from the one cycle the object owns, so a pass consumed whole
  yields the items in cyclic order starting where the earlier iterators left the cycle:
  the list rotated by the number of items drawn so far. It starts from the first
  element when every earlier iterator was consumed whole.
\<close>

theorem StatefulListIterator_pass_rotates:
  "StatefulListIterator_len (earlier_passes ks (StatefulListIterator_init xs)) = length xs \<and>
   fst (full_pass (earlier_passes ks (StatefulListIterator_init xs))) =
     rotate (drawn (length xs) ks) xs \<and>
   (list_all (\<lambda>k. length xs \<le> k) ks \<longrightarrow>
      fst (full_pass (earlier_passes ks (StatefulListIterator_init xs))) = xs)"
proof (intro conjI impI)
  show "StatefulListIterator_len (earlier_passes ks (StatefulListIterator_init xs)) = length xs"
    by (rule len_after)
  show r: "fst (full_pass (earlier_passes ks (StatefulListIterator_init xs))) =
      rotate (drawn (length xs) ks) xs"
    by (simp add: full_pass_after)
  assume "list_all (\<lambda>k. length xs \<le> k) ks"
  then have "drawn (length xs) ks = length xs * length ks"
    by (rule drawn_exhausted)
  then have "rotate (drawn (length xs) ks) xs = xs"
    by (simp add: rotate_conv_mod [of "length xs * length ks"])
  with r show "fst (full_pass (earlier_passes ks (StatefulListIterator_init xs))) = xs"
    by simp
qed

theorem StatefulListIterator_pass_rotates_witness:
  "StatefulListIterator_len (earlier_passes [3, 5] (StatefulListIterator_init [10, 20, 30 :: int])) = 3 \<and>
   list_all (\<lambda>k. length [10, 20, 30 :: int] \<le> k) [3, 5] \<and>
   fst (full_pass (earlier_passes [3, 5] (StatefulListIterator_init [10, 20, 30 :: int]))) =
     [10, 20, 30]"
  using StatefulListIterator_pass_rotates [of "[3, 5]" "[10, 20, 30 :: int]"]
  by (simp del: earlier_passes.simps)

text \<open>
  Claim C8 as stated fails: an iterator obtained earlier and advanced by one element
  moves the start of the next pass to the second element.
\<close>

theorem StatefulListIterator_pass_counterexample:
  "fst (full_pass (earlier_passes [1] (StatefulListIterator_init [10, 20, 30 :: int]))) =
     [20, 30, 10] \<and>
   fst (full_pass (earlier_passes [1] (StatefulListIterator_init [10, 20, 30 :: int]))) \<noteq>
     [10, 20, 30]"
  by (simp add: full_pass_after rotate_def del: earlier_passes.simps)

section \<open>Event: the two failure policies\<close>

lemma handlers_registered:
  "handlers (foldl register_handler ev hs) = handlers ev @ hs"
  by (induction hs arbitrary: ev) (simp_all add: register_handler_def)

lemma fire_loop_caught_prefix:
  "list_all returned_or_caught (fst (invoke_all pre event w)) \<Longrightarrow>
   fire_loop (pre @ post) event True rv w =
     fire_loop post event True (rv \<and> list_all returned (fst (invoke_all pre event w)))
       (snd (invoke_all pre event w))"
proof (induction pre arbitrary: rv w)
  case Nil
  then show ?case by simp
next
  case (Cons h pre)
  obtain r w' where h: "h event w = (r, w')" by (cases "h event w")
  obtain rs w'' where t: "invoke_all pre event w' = (rs, w'')"
    by (cases "invoke_all pre event w'")
  from Cons.prems h t have ok: "returned_or_caught r"
    and rest: "list_all returned_or_caught (fst (invoke_all pre event w'))"
    by simp_all
  show ?case
  proof (cases r)
    case None
    then show ?thesis using Cons.IH [OF rest, of rv] h t by (simp add: returned_def)
  next
    case (Some ex)
    then have "is_Exception ex" using ok by (simp add: returned_or_caught_def)
    then show ?thesis using Cons.IH [OF rest, of False] h t Some by (simp add: returned_def)
  qed
qed

lemma fire_loop_returned_prefix:
  "list_all returned (fst (invoke_all pre event w)) \<Longrightarrow>
   fire_loop (pre @ post) event c rv w = fire_loop post event c rv (snd (invoke_all pre event w))"
proof (induction pre arbitrary: w)
  case Nil
  then show ?case by simp
next
  case (Cons h pre)
  obtain r w' where h: "h event w = (r, w')" by (cases "h event w")
  obtain rs w'' where t: "invoke_all pre event w' = (rs, w'')"
    by (cases "invoke_all pre event w'")
  from Cons.prems h t have "returned r"
    and rest: "list_all returned (fst (invoke_all pre event w'))"
    by simp_all
  then have "r = None" by (simp add: returned_def)
  then show ?case using Cons.IH [OF rest] h t by simp
qed

lemma fire_continue:
  "list_all returned_or_caught (fst (invoke_all hs event w)) \<Longrightarrow>
   fire_loop hs event True True w =
     (Inr (list_all returned (fst (invoke_all hs event w))), snd (invoke_all hs event w))"
  using fire_loop_caught_prefix [of hs event w "[]" True] by simp

lemma fire_abort_all_return:
  "list_all returned (fst (invoke_all hs event w)) \<Longrightarrow>
   fire_loop hs event False True w = (Inr True, snd (invoke_all hs event w))"
  using fire_loop_returned_prefix [of hs event w "[]" False True] by simp

lemma fire_abort_first_raise:
  "list_all returned (fst (invoke_all pre event w)) \<Longrightarrow>
   h event (snd (invoke_all pre event w)) = (Some ex, w') \<Longrightarrow>
   fire_loop (pre @ h # post) event False True w = (Inl ex, w')"
  by (simp add: fire_loop_returned_prefix)

lemma fire_uncaught:
  "list_all returned_or_caught (fst (invoke_all pre event w)) \<Longrightarrow>
   h event (snd (invoke_all pre event w)) = (Some ex, w') \<Longrightarrow> \<not> is_Exception ex \<Longrightarrow>
   fire_loop (pre @ h # post) event True True w = (Inl ex, w')"
  by (simp add: fire_loop_caught_prefix)

text \<open>
  Claim C9, as the code has it. \<open>register_handler\<close> appends, and \<open>fire\<close> invokes the
  handlers synchronously in that order. With \<open>continue_after_failure=True\<close>, when every
  exception the handlers raise is an instance of \<open>Exception\<close>, all handlers are invoked
  and the flag returned is true exactly when none raised. With
  \<open>continue_after_failure=False\<close> the first exception a handler raises leaves \<open>fire\<close>
  and the handlers after it are not invoked (the result does not depend on them); when
  none raises, all are invoked and the flag is true. An exception that is not an instance
  of \<open>Exception\<close> leaves \<open>fire\<close> at once under the continue policy as well.
\<close>

theorem fire_policies:
  "handlers (foldl register_handler Event_init hs) = hs \<and>
   (list_all returned_or_caught (fst (invoke_all (handlers ev) event w)) \<longrightarrow>
      fire ev event True w =
        (Inr (list_all returned (fst (invoke_all (handlers ev) event w))),
         snd (invoke_all (handlers ev) event w))) \<and>
   (list_all returned (fst (invoke_all (handlers ev) event w)) \<longrightarrow>
      fire ev event False w = (Inr True, snd (invoke_all (handlers ev) event w))) \<and>
   (handlers ev = pre @ h # post \<and> list_all returned (fst (invoke_all pre event w)) \<and>
    h event (snd (invoke_all pre event w)) = (Some ex, w') \<longrightarrow>
      fire ev event False w = (Inl ex, w')) \<and>
   (handlers ev = pre @ h # post \<and> list_all returned_or_caught (fst (invoke_all pre event w)) \<and>
    h event (snd (invoke_all pre event w)) = (Some ex, w') \<and> \<not> is_Exception ex \<longrightarrow>
      fire ev event True w = (Inl ex, w'))"
proof (intro conjI impI)
  show "handlers (foldl register_handler Event_init hs) = hs"
    by (simp add: handlers_registered Event_init_def)
next
  assume "list_all returned_or_caught (fst (invoke_all (handlers ev) event w))"
  then show "fire ev event True w =
      (Inr (list_all returned (fst (invoke_all (handlers ev) event w))),
       snd (invoke_all (handlers ev) event w))"
    unfolding fire_def by (rule fire_continue)
next
  assume "list_all returned (fst (invoke_all (handlers ev) event w))"
  then show "fire ev event False w = (Inr True, snd (invoke_all (handlers ev) event w))"
    unfolding fire_def by (rule fire_abort_all_return)
next
  assume a: "handlers ev = pre @ h # post \<and> list_all returned (fst (invoke_all pre event w)) \<and>
    h event (snd (invoke_all pre event w)) = (Some ex, w')"
  then show "fire ev event False w = (Inl ex, w')"
    unfolding fire_def using fire_abort_first_raise [of pre event w h ex w' post] by simp
next
  assume a: "handlers ev = pre @ h # post \<and>
    list_all returned_or_caught (fst (invoke_all pre event w)) \<and>
    h event (snd (invoke_all pre event w)) = (Some ex, w') \<and> \<not> is_Exception ex"
  then show "fire ev event True w = (Inl ex, w')"
    unfolding fire_def using fire_uncaught [of pre event w h ex w' post] by simp
qed

lemma example_outcomes:
  "invoke_all [logging_handler ''a'', raising_handler ''b'' ValueError, logging_handler ''c''] ()
     [] = ([None, Some ValueError, None], [''a'', ''b'', ''c''])"
  "invoke_all [logging_handler ''a''] () [] = ([None], [''a''])"
  "invoke_all [logging_handler ''a'', logging_handler ''c''] () [] = ([None, None], [''a'', ''c''])"
  "raising_handler ''b'' ex () [''a''] = (Some ex, [''a'', ''b''])"
  by (simp_all add: logging_handler_def raising_handler_def)

theorem fire_policies_witness:
  "fire \<lparr>handlers = [logging_handler ''a'', raising_handler ''b'' ValueError, logging_handler ''c'']\<rparr>
     () True [] = (Inr False, [''a'', ''b'', ''c'']) \<and>
   fire \<lparr>handlers = [logging_handler ''a'', logging_handler ''c'']\<rparr> () False [] =
     (Inr True, [''a'', ''c'']) \<and>
   fire \<lparr>handlers = [logging_handler ''a'', raising_handler ''b'' ValueError, logging_handler ''c'']\<rparr>
     () False [] = (Inl ValueError, [''a'', ''b'']) \<and>
   fire \<lparr>handlers = [logging_handler ''a'', raising_handler ''b'' KeyboardInterrupt, logging_handler ''c'']\<rparr>
     () True [] = (Inl KeyboardInterrupt, [''a'', ''b''])"
proof (intro conjI)
  let ?a = "logging_handler ''a''" and ?c = "logging_handler ''c''"
  let ?b = "raising_handler ''b'' ValueError"
  let ?k = "raising_handler ''b'' KeyboardInterrupt"
  note c2 = conjunct2 [THEN conjunct1] and c3 = conjunct2 [THEN conjunct2, THEN conjunct1]
    and c4 = conjunct2 [THEN conjunct2, THEN conjunct2, THEN conjunct1]
    and c5 = conjunct2 [THEN conjunct2, THEN conjunct2, THEN conjunct2]
  show "fire \<lparr>handlers = [?a, ?b, ?c]\<rparr> () True [] = (Inr False, [''a'', ''b'', ''c''])"
    using fire_policies [of _ "\<lparr>handlers = [?a, ?b, ?c]\<rparr>" "()" "[]", THEN c2]
    by (simp add: example_outcomes returned_or_caught_def returned_def del: invoke_all.simps)
  show "fire \<lparr>handlers = [?a, ?c]\<rparr> () False [] = (Inr True, [''a'', ''c''])"
    using fire_policies [of _ "\<lparr>handlers = [?a, ?c]\<rparr>" "()" "[]", THEN c3]
    by (simp add: example_outcomes returned_def del: invoke_all.simps)
  show "fire \<lparr>handlers = [?a, ?b, ?c]\<rparr> () False [] = (Inl ValueError, [''a'', ''b''])"
    using fire_policies [of _ "\<lparr>handlers = [?a, ?b, ?c]\<rparr>" "()" "[]" "[?a]" ?b "[?c]"
        ValueError "[''a'', ''b'']", THEN c4]
    by (simp add: example_outcomes returned_def del: invoke_all.simps)
  show "fire \<lparr>handlers = [?a, ?k, ?c]\<rparr> () True [] = (Inl KeyboardInterrupt, [''a'', ''b''])"
    using fire_policies [of _ "\<lparr>handlers = [?a, ?k, ?c]\<rparr>" "()" "[]" "[?a]" ?k "[?c]"
        KeyboardInterrupt "[''a'', ''b'']", THEN c5]
    by (simp add: example_outcomes returned_or_caught_def del: invoke_all.simps)
qed

text \<open>
  Claim C9 as stated fails: under the continue policy a handler that raises
  \<open>SystemExit\<close> ends \<open>fire\<close>; the handler registered after it is not invoked and no
  flag is returned.
\<close>

theorem fire_continue_counterexample:
  "fire \<lparr>handlers = [raising_handler ''first'' SystemExit, logging_handler ''second'']\<rparr>
     () True [] = (Inl SystemExit, [''first''])"
  by (simp add: fire_def raising_handler_def)

section \<open>ThreadLocalMember: what a read returns\<close>

lemma assigned_in_append: "assigned_in t (xs @ ys) = (assigned_in t xs \<or> assigned_in t ys)"
  by (induction t xs rule: assigned_in.induct) auto

lemma first_assigned_append:
  "first_assigned (xs @ ys) =
     (case first_assigned xs of None \<Rightarrow> first_assigned ys | Some v \<Rightarrow> Some v)"
  by (induction xs rule: first_assigned.induct) auto

lemma never_assigned: "first_assigned ops = None \<Longrightarrow> \<not> assigned_in t ops"
  by (induction ops rule: first_assigned.induct) auto

lemma perform_default_inv:
  "init_value m = Some d \<Longrightarrow> untouched_ok d A inst \<Longrightarrow>
   untouched_ok d (\<lambda>t. A t \<or> assigned_in t [a]) (perform m inst a)"
  by (cases a)
     (auto simp: untouched_ok_def ThreadLocalMember_get_def ThreadLocalMember_set_def
        get_or_set_lv_def get_value_def set_value_def ThreadLocalValue_init_def
        split: option.splits)

lemma history_default_inv:
  "init_value m = Some d \<Longrightarrow> untouched_ok d (\<lambda>t. assigned_in t ops) (history m ops)"
proof (induction ops rule: rev_induct)
  case Nil
  then show ?case by (simp add: history_def untouched_ok_def)
next
  case (snoc a ops)
  then have "untouched_ok d (\<lambda>t. assigned_in t ops) (history m ops)" by simp
  from perform_default_inv [OF snoc.prems this, of a]
  show ?case by (simp add: history_def assigned_in_append)
qed

lemma get_default:
  "init_value m = Some d \<Longrightarrow> \<not> assigned_in t ops \<Longrightarrow>
   fst (ThreadLocalMember_get m (history m ops) t) = Inr d"
  using history_default_inv [of m d ops]
  by (auto simp: ThreadLocalMember_get_def get_or_set_lv_def untouched_ok_def get_value_def
      ThreadLocalValue_init_def split: option.splits prod.splits)

lemma perform_nodefault_none:
  "init_value m = None \<Longrightarrow> first_assigned [a] = None \<Longrightarrow> perform m None a = None"
  by (cases a) (auto simp: ThreadLocalMember_get_def)

lemma history_nodefault_none:
  "init_value m = None \<Longrightarrow> first_assigned ops = None \<Longrightarrow> history m ops = None"
proof (induction ops rule: rev_induct)
  case Nil
  then show ?case by (simp add: history_def)
next
  case (snoc a ops)
  from snoc.prems have a: "first_assigned ops = None" "first_assigned [a] = None"
    by (auto simp: first_assigned_append split: option.splits)
  with snoc have "history m ops = None" by simp
  then show ?case
    using perform_nodefault_none [OF snoc.prems(1) a(2)] by (simp add: history_def)
qed

lemma perform_nodefault_inv:
  "init_value m = None \<Longrightarrow> inst \<noteq> None \<Longrightarrow> untouched_ok v0 A inst \<Longrightarrow>
   perform m inst a \<noteq> None \<and>
   untouched_ok v0 (\<lambda>t. A t \<or> assigned_in t [a]) (perform m inst a)"
  by (cases a)
     (auto simp: untouched_ok_def ThreadLocalMember_get_def ThreadLocalMember_set_def
        get_or_set_lv_def get_value_def set_value_def ThreadLocalValue_init_def
        split: option.splits)

lemma perform_first_assign:
  "init_value m = None \<Longrightarrow>
   perform m None (Assign u v0) \<noteq> None \<and>
   untouched_ok v0 ((=) u) (perform m None (Assign u v0))"
  by (auto simp: untouched_ok_def ThreadLocalMember_set_def
        get_or_set_lv_def set_value_def ThreadLocalValue_init_def)

lemma history_nodefault_inv:
  "init_value m = None \<Longrightarrow> first_assigned ops = Some v0 \<Longrightarrow>
   history m ops \<noteq> None \<and> untouched_ok v0 (\<lambda>t. assigned_in t ops) (history m ops)"
proof (induction ops rule: rev_induct)
  case Nil
  then show ?case by simp
next
  case (snoc a ops)
  show ?case
  proof (cases "first_assigned ops")
    case None
    with snoc.prems obtain u where a: "a = Assign u v0"
      by (cases a) (auto simp: first_assigned_append)
    have h: "history m ops = None"
      using history_nodefault_none [OF snoc.prems(1) None] .
    have na: "\<And>t. \<not> assigned_in t ops"
      using None by (rule never_assigned)
    show ?thesis
      using perform_first_assign [OF snoc.prems(1), of u v0] h a na
      by (simp add: history_def assigned_in_append)
  next
    case (Some v)
    with snoc.prems have "v = v0" by (simp add: first_assigned_append)
    with Some snoc have ih: "history m ops \<noteq> None"
      "untouched_ok v0 (\<lambda>t. assigned_in t ops) (history m ops)"
      by simp_all
    from perform_nodefault_inv [OF snoc.prems(1) ih, of a]
    show ?thesis by (simp add: history_def assigned_in_append)
  qed
qed

lemma get_nodefault_unassigned:
  "init_value m = None \<Longrightarrow> first_assigned ops = None \<Longrightarrow>
   fst (ThreadLocalMember_get m (history m ops) t) = Inl AttributeError"
  using history_nodefault_none [of m ops] by (simp add: ThreadLocalMember_get_def)

lemma get_nodefault_first:
  "init_value m = None \<Longrightarrow> first_assigned ops = Some v0 \<Longrightarrow> \<not> assigned_in t ops \<Longrightarrow>
   fst (ThreadLocalMember_get m (history m ops) t) = Inr v0"
  using history_nodefault_inv [of m ops v0]
  by (auto simp: ThreadLocalMember_get_def untouched_ok_def get_value_def
      split: option.splits prod.splits)

lemma get_materializes:
  "init_value m = Some d \<Longrightarrow>
   ThreadLocalMember_get m None t = (Inr d, Some (ThreadLocalValue_init t d))"
  by (simp add: ThreadLocalMember_get_def get_or_set_lv_def get_value_def
      ThreadLocalValue_init_def)

text \<open>
  Claim C10. Take any history \<open>ops\<close> of reads and assignments on a fresh instance and
  then a read in thread \<open>t\<close>.
  Without a declared initial value, the read raises \<open>AttributeError\<close> as long as the
  history holds no assignment.
  With a declared initial value \<open>d\<close>, nothing is stored on a fresh instance, the first
  access creates the thread-local object from \<open>d\<close>, and a read in a thread that has not
  assigned returns \<open>d\<close>, whatever other threads have assigned.
  Without a declared initial value, once some thread has assigned, a read in a thread
  that has not assigned returns the first value ever assigned.
\<close>

theorem ThreadLocalMember_reads:
  "(init_value m = None \<and> first_assigned ops = None \<longrightarrow>
      fst (ThreadLocalMember_get m (history m ops) t) = Inl AttributeError) \<and>
   history m [] = None \<and>
   (init_value m = Some d \<longrightarrow>
      ThreadLocalMember_get m (history m []) t = (Inr d, Some (ThreadLocalValue_init t d))) \<and>
   (init_value m = Some d \<and> \<not> assigned_in t ops \<longrightarrow>
      fst (ThreadLocalMember_get m (history m ops) t) = Inr d) \<and>
   (init_value m = None \<and> first_assigned ops = Some v0 \<and> \<not> assigned_in t ops \<longrightarrow>
      fst (ThreadLocalMember_get m (history m ops) t) = Inr v0)"
proof (intro conjI impI)
  show "history m [] = None" by (simp add: history_def)
next
  assume "init_value m = None \<and> first_assigned ops = None"
  then show "fst (ThreadLocalMember_get m (history m ops) t) = Inl AttributeError"
    by (simp add: get_nodefault_unassigned)
next
  assume "init_value m = Some d"
  then show "ThreadLocalMember_get m (history m []) t =
      (Inr d, Some (ThreadLocalValue_init t d))"
    by (simp add: history_def get_materializes)
next
  assume "init_value m = Some d \<and> \<not> assigned_in t ops"
  then show "fst (ThreadLocalMember_get m (history m ops) t) = Inr d"
    by (simp add: get_default)
next
  assume "init_value m = None \<and> first_assigned ops = Some v0 \<and> \<not> assigned_in t ops"
  then show "fst (ThreadLocalMember_get m (history m ops) t) = Inr v0"
    by (simp add: get_nodefault_first)
qed

theorem ThreadLocalMember_reads_witness:
  "fst (ThreadLocalMember_get \<lparr>init_value = None\<rparr>
          (history \<lparr>init_value = None\<rparr> [Read 0, Read 1 :: int access]) 1) = Inl AttributeError \<and>
   ThreadLocalMember_get \<lparr>init_value = Some (1 :: int)\<rparr> (history \<lparr>init_value = Some 1\<rparr> []) 4 =
     (Inr 1, Some (ThreadLocalValue_init 4 1)) \<and>
   fst (ThreadLocalMember_get \<lparr>init_value = Some (1 :: int)\<rparr>
          (history \<lparr>init_value = Some 1\<rparr> [Assign 0 2, Read 0, Assign 0 3]) 1) = Inr 1 \<and>
   fst (ThreadLocalMember_get \<lparr>init_value = None\<rparr>
          (history \<lparr>init_value = None\<rparr> [Read 1, Assign 0 (5 :: int), Assign 0 7, Assign 2 9]) 1) =
     Inr 5"
proof (intro conjI)
  note c1 = conjunct1
    and c3 = conjunct2 [THEN conjunct2, THEN conjunct1]
    and c4 = conjunct2 [THEN conjunct2, THEN conjunct2, THEN conjunct1]
    and c5 = conjunct2 [THEN conjunct2, THEN conjunct2, THEN conjunct2]
  show "fst (ThreadLocalMember_get \<lparr>init_value = None\<rparr>
          (history \<lparr>init_value = None\<rparr> [Read 0, Read 1 :: int access]) 1) = Inl AttributeError"
    using ThreadLocalMember_reads [of "\<lparr>init_value = None\<rparr>" "[Read 0, Read 1 :: int access]" 1,
        THEN c1]
    by simp
  show "ThreadLocalMember_get \<lparr>init_value = Some (1 :: int)\<rparr> (history \<lparr>init_value = Some 1\<rparr> []) 4 =
     (Inr 1, Some (ThreadLocalValue_init 4 1))"
    using ThreadLocalMember_reads [of "\<lparr>init_value = Some (1 :: int)\<rparr>" _ 4 1, THEN c3]
    by simp
  show "fst (ThreadLocalMember_get \<lparr>init_value = Some (1 :: int)\<rparr>
          (history \<lparr>init_value = Some 1\<rparr> [Assign 0 2, Read 0, Assign 0 3]) 1) = Inr 1"
    using ThreadLocalMember_reads [of "\<lparr>init_value = Some (1 :: int)\<rparr>"
        "[Assign 0 2, Read 0, Assign 0 3]" 1 1, THEN c4]
    by simp
  show "fst (ThreadLocalMember_get \<lparr>init_value = None\<rparr>
          (history \<lparr>init_value = None\<rparr> [Read 1, Assign 0 (5 :: int), Assign 0 7, Assign 2 9]) 1) =
     Inr 5"
    using ThreadLocalMember_reads [of "\<lparr>init_value = None\<rparr>"
        "[Read 1, Assign 0 (5 :: int), Assign 0 7, Assign 2 9]" 1 _ 5, THEN c5]
    by simp
qed

section \<open>The child process: listener and entry point\<close>

lemma listen_loop_probe:
  "\<not> closed (pipe l) \<Longrightarrow> incoming t = Inr (PStr TEST_ALIVE_MESSAGE) \<Longrightarrow> reply_fault t = None \<Longrightarrow>
   listen_loop l (t # ts) =
     listen_loop
       (l\<lparr>inner_service := (inner_service l)\<lparr>is_alive := alive_now t\<rparr>,
          effects := effects l @ [Send (PBool (alive_now t))]\<rparr>) ts"
  by (simp add: Connection_recv_def Connection_send_def Let_def)

lemma listen_loop_stop:
  "\<not> closed (pipe l) \<Longrightarrow> incoming t = Inr (PStr STOP_MESSAGE) \<Longrightarrow>
   listen_loop l (t # ts) =
     (Some Break, l\<lparr>inner_service := (inner_service l)\<lparr>is_alive := alive_now t\<rparr>\<rparr>)"
  by (simp add: Connection_recv_def STOP_MESSAGE_def TEST_ALIVE_MESSAGE_def Let_def)

lemma listen_loop_other:
  "\<not> closed (pipe l) \<Longrightarrow> incoming t = Inr m \<Longrightarrow> m \<noteq> PStr TEST_ALIVE_MESSAGE \<Longrightarrow>
   m \<noteq> PStr STOP_MESSAGE \<Longrightarrow>
   listen_loop l (t # ts) =
     listen_loop (l\<lparr>inner_service := (inner_service l)\<lparr>is_alive := alive_now t\<rparr>\<rparr>) ts"
  by (simp add: Connection_recv_def Let_def)

lemma listen_loop_benign:
  "\<not> closed (pipe l) \<Longrightarrow> list_all benign ts \<Longrightarrow>
   fst (listen_loop l ts) = None \<and>
   effects (snd (listen_loop l ts)) = effects l @ replies ts"
proof (induction ts arbitrary: l)
  case Nil
  then show ?case by simp
next
  case (Cons t ts)
  from Cons.prems have b: "benign t" and rest: "list_all benign ts" by simp_all
  let ?l = "l\<lparr>inner_service := (inner_service l)\<lparr>is_alive := alive_now t\<rparr>\<rparr>"
  from b obtain m where m: "incoming t = Inr m"
    by (cases "incoming t") (simp_all add: benign_def ends_loop_def)
  show ?case
  proof (cases "m = PStr TEST_ALIVE_MESSAGE")
    case True
    with b m have f: "reply_fault t = None" by (simp add: benign_def ends_loop_def)
    let ?l' = "l\<lparr>inner_service := (inner_service l)\<lparr>is_alive := alive_now t\<rparr>,
          effects := effects l @ [Send (PBool (alive_now t))]\<rparr>"
    have "listen_loop l (t # ts) = listen_loop ?l' ts"
      using Cons.prems(1) m True f by (intro listen_loop_probe) simp_all
    moreover have "\<not> closed (pipe ?l')" using Cons.prems(1) by simp
    ultimately show ?thesis using Cons.IH [OF _ rest, of ?l'] m True by simp
  next
    case False
    with b m have ns: "m \<noteq> PStr STOP_MESSAGE" by (simp add: benign_def ends_loop_def)
    have "listen_loop l (t # ts) = listen_loop ?l ts"
      using Cons.prems(1) m False ns by (intro listen_loop_other [of l t m]) simp_all
    moreover have "\<not> closed (pipe ?l)" using Cons.prems(1) by simp
    ultimately show ?thesis using Cons.IH [OF _ rest, of ?l] m False by simp
  qed
qed

lemma listen_loop_step:
  "(\<exists>ex. listen_loop l (t # ts) =
      (Some ex, l\<lparr>inner_service := (inner_service l)\<lparr>is_alive := alive_now t\<rparr>\<rparr>)) \<or>
   listen_loop l (t # ts) =
     listen_loop (l\<lparr>inner_service := (inner_service l)\<lparr>is_alive := alive_now t\<rparr>\<rparr>) ts \<or>
   listen_loop l (t # ts) =
     listen_loop
       (l\<lparr>inner_service := (inner_service l)\<lparr>is_alive := alive_now t\<rparr>,
          effects := effects l @ [Send (PBool (alive_now t))]\<rparr>) ts"
  by (cases "Connection_recv (pipe l) (incoming t)"; cases "reply_fault t";
      cases "Connection_send (pipe l)"; simp add: Let_def)

lemma listen_loop_frame:
  "\<exists>sends. effects (snd (listen_loop l ts)) = effects l @ map Send sends \<and>
           stop_requests (inner_service (snd (listen_loop l ts))) = stop_requests (inner_service l) \<and>
           pipe (snd (listen_loop l ts)) = pipe l"
proof (induction ts arbitrary: l)
  case Nil
  show ?case by (simp add: exI [of _ "[]"])
next
  case (Cons t ts)
  let ?l = "l\<lparr>inner_service := (inner_service l)\<lparr>is_alive := alive_now t\<rparr>\<rparr>"
  let ?l' = "l\<lparr>inner_service := (inner_service l)\<lparr>is_alive := alive_now t\<rparr>,
          effects := effects l @ [Send (PBool (alive_now t))]\<rparr>"
  from listen_loop_step [of l t ts]
  consider (same) ex where "listen_loop l (t # ts) = (Some ex, ?l)"
    | (skip) "listen_loop l (t # ts) = listen_loop ?l ts"
    | (reply) "listen_loop l (t # ts) = listen_loop ?l' ts"
    by blast
  then show ?case
  proof cases
    case same
    then show ?thesis by (simp add: exI [of _ "[]"] del: listen_loop.simps)
  next
    case skip
    with Cons.IH [of ?l] show ?thesis by (simp del: listen_loop.simps)
  next
    case reply
    from Cons.IH [of ?l'] obtain sends where
      s: "effects (snd (listen_loop ?l' ts)) = effects ?l' @ map Send sends"
      "stop_requests (inner_service (snd (listen_loop ?l' ts))) = stop_requests (inner_service ?l')"
      "pipe (snd (listen_loop ?l' ts)) = pipe ?l'"
      by blast
    show ?thesis
      using reply s
      by (intro exI [of _ "PBool (alive_now t) # sends"]) (simp del: listen_loop.simps)
  qed
qed

lemma listen_loop_ends: "list_ex ends_loop ts \<Longrightarrow> fst (listen_loop l ts) \<noteq> None"
proof (induction ts arbitrary: l)
  case Nil
  then show ?case by simp
next
  case (Cons t ts)
  show ?case
  proof (cases "ends_loop t")
    case True
    then show ?thesis
      by (auto simp: ends_loop_def Let_def Connection_recv_def Connection_send_def
          split: sum.splits option.splits if_splits)
  next
    case False
    with Cons.prems have "list_ex ends_loop ts" by simp
    from Cons.IH [OF this] show ?thesis
      by (auto simp: Let_def split: sum.splits option.splits)
  qed
qed

lemma listen_to_pipe_cases:
  obtains (blocked) l where "listen_loop \<lparr>inner_service = svc, pipe = p, effects = []\<rparr> ts = (None, l)"
      "listen_to_pipe svc p ts = (Blocked, l)"
  | (ended) ex l where "listen_loop \<lparr>inner_service = svc, pipe = p, effects = []\<rparr> ts = (Some ex, l)"
      "snd (listen_to_pipe svc p ts) =
         l\<lparr>inner_service := service_stop (inner_service l), pipe := Connection_close (pipe l),
           effects := effects l @ [ServiceStop, Close]\<rparr>"
      "fst (listen_to_pipe svc p ts) = Returned \<or>
       (\<exists>e. fst (listen_to_pipe svc p ts) = Died e \<and> \<not> is_Exception e)"
proof (cases "listen_loop \<lparr>inner_service = svc, pipe = p, effects = []\<rparr> ts")
  case (Pair r l)
  show ?thesis
  proof (cases r)
    case None
    with Pair show ?thesis by (intro blocked [of l]) (simp_all add: listen_to_pipe_def)
  next
    case (Some ex)
    with Pair show ?thesis
      by (intro ended [of ex l]) (auto simp: listen_to_pipe_def Let_def split: loop_exit.splits)
  qed
qed

lemma listener_cleanup_ended:
  assumes "fst (listen_to_pipe svc p ts) \<noteq> Blocked"
  shows "stop_requests (inner_service (snd (listen_to_pipe svc p ts))) = Suc (stop_requests svc)"
    and "closed (pipe (snd (listen_to_pipe svc p ts)))"
    and "\<exists>sends. effects (snd (listen_to_pipe svc p ts)) = map Send sends @ [ServiceStop, Close]"
proof -
  let ?l0 = "\<lparr>inner_service = svc, pipe = p, effects = []\<rparr>"
  from assms obtain ex l where l: "listen_loop ?l0 ts = (Some ex, l)"
    and s: "snd (listen_to_pipe svc p ts) =
         l\<lparr>inner_service := service_stop (inner_service l), pipe := Connection_close (pipe l),
           effects := effects l @ [ServiceStop, Close]\<rparr>"
    by (cases rule: listen_to_pipe_cases [of svc p ts]) simp_all
  from listen_loop_frame [of ?l0 ts] l obtain sends where
    f: "effects l = map Send sends" "stop_requests (inner_service l) = stop_requests svc"
    by auto
  show "stop_requests (inner_service (snd (listen_to_pipe svc p ts))) = Suc (stop_requests svc)"
    using s f by (simp add: service_stop_def)
  show "closed (pipe (snd (listen_to_pipe svc p ts)))"
    using s by (simp add: Connection_close_def)
  show "\<exists>sends. effects (snd (listen_to_pipe svc p ts)) = map Send sends @ [ServiceStop, Close]"
    using s f by auto
qed

lemma listener_ends:
  "list_ex ends_loop ts \<Longrightarrow> fst (listen_to_pipe svc p ts) \<noteq> Blocked"
  using listen_loop_ends [of ts "\<lparr>inner_service = svc, pipe = p, effects = []\<rparr>"]
  by (cases rule: listen_to_pipe_cases [of svc p ts]) auto

lemma listener_died: "fst (listen_to_pipe svc p ts) = Died e \<Longrightarrow> \<not> is_Exception e"
  by (cases rule: listen_to_pipe_cases [of svc p ts]) auto

lemma main_line_apart:
  "raised (start_service_and_listen_queue f run p idx env ts) =
   raised (start_service_and_listen_queue f run p idx env [])"
  by (simp add: start_service_and_listen_queue_def Let_def split: sum.splits)

text \<open>
  Claim C5. Whenever the listener's loop has ended, the worker has received exactly one
  more stop request, the child's endpoint is closed, and the listener's last two
  effects are the worker's stop and the close of the pipe, with only replies before
  them. The loop ends on a STOP message, on an exception of \<open>recv\<close> (the channel closed
  or broken) and on an exception while answering a probe. An exception of class
  \<open>Exception\<close> never leaves the listener's function, and whatever the listener
  receives, the exception that leaves the child's main line, if any, is the same.
\<close>

theorem listener_cleanup:
  "(fst (listen_to_pipe svc p ts) \<noteq> Blocked \<longrightarrow>
      stop_requests (inner_service (snd (listen_to_pipe svc p ts))) = Suc (stop_requests svc) \<and>
      closed (pipe (snd (listen_to_pipe svc p ts))) \<and>
      (\<exists>sends. effects (snd (listen_to_pipe svc p ts)) = map Send sends @ [ServiceStop, Close])) \<and>
   (list_ex ends_loop ts \<longrightarrow> fst (listen_to_pipe svc p ts) \<noteq> Blocked) \<and>
   (fst (listen_to_pipe svc p ts) = Died e \<longrightarrow> \<not> is_Exception e) \<and>
   raised (start_service_and_listen_queue f run p idx env ts) =
     raised (start_service_and_listen_queue f run p idx env [])"
  using listener_cleanup_ended [of svc p ts] listener_ends [of ts svc p]
    listener_died [of svc p ts e] main_line_apart [of f run p idx env ts]
  by blast

lemma example_turns:
  "ends_loop stop_turn" "ends_loop eof_turn" "ends_loop broken_reply_turn"
  "\<not> ends_loop (probe_turn b)" "\<not> ends_loop noise_turn"
  by (simp_all add: ends_loop_def stop_turn_def eof_turn_def broken_reply_turn_def probe_turn_def
      noise_turn_def STOP_MESSAGE_def TEST_ALIVE_MESSAGE_def)

theorem listener_cleanup_witness:
  "fst (listen_to_pipe \<lparr>is_alive = True, stop_requests = 0\<rparr> \<lparr>closed = False\<rparr>
          [probe_turn True, stop_turn]) \<noteq> Blocked \<and>
   stop_requests (inner_service (snd (listen_to_pipe \<lparr>is_alive = True, stop_requests = 0\<rparr>
          \<lparr>closed = False\<rparr> [probe_turn True, stop_turn]))) = 1 \<and>
   closed (pipe (snd (listen_to_pipe \<lparr>is_alive = True, stop_requests = 0\<rparr> \<lparr>closed = False\<rparr>
          [probe_turn True, stop_turn]))) \<and>
   closed (pipe (snd (listen_to_pipe \<lparr>is_alive = True, stop_requests = 0\<rparr> \<lparr>closed = False\<rparr>
          [noise_turn, eof_turn]))) \<and>
   closed (pipe (snd (listen_to_pipe \<lparr>is_alive = True, stop_requests = 0\<rparr> \<lparr>closed = False\<rparr>
          [broken_reply_turn])))"
proof -
  let ?svc = "\<lparr>is_alive = True, stop_requests = 0\<rparr>" and ?p = "\<lparr>closed = False\<rparr>"
  have e: "list_ex ends_loop [probe_turn True, stop_turn]" "list_ex ends_loop [noise_turn, eof_turn]"
    "list_ex ends_loop [broken_reply_turn]"
    by (simp_all add: example_turns)
  note c1 = conjunct1 and c2 = conjunct2 [THEN conjunct1]
  have "fst (listen_to_pipe ?svc ?p [probe_turn True, stop_turn]) \<noteq> Blocked"
    using listener_cleanup [of ?svc ?p "[probe_turn True, stop_turn]", THEN c2] e
    by (simp add: example_turns)
  moreover have "fst (listen_to_pipe ?svc ?p [noise_turn, eof_turn]) \<noteq> Blocked"
    using listener_cleanup [of ?svc ?p "[noise_turn, eof_turn]", THEN c2] e
    by (simp add: example_turns)
  moreover have "fst (listen_to_pipe ?svc ?p [broken_reply_turn]) \<noteq> Blocked"
    using listener_cleanup [of ?svc ?p "[broken_reply_turn]", THEN c2] e
    by (simp add: example_turns)
  ultimately show ?thesis
    using listener_cleanup [of ?svc ?p "[probe_turn True, stop_turn]", THEN c1]
      listener_cleanup [of ?svc ?p "[noise_turn, eof_turn]", THEN c1]
      listener_cleanup [of ?svc ?p "[broken_reply_turn]", THEN c1]
    by simp
qed

text \<open>
  Claim C6. For a message received on the open endpoint: a TEST_ALIVE message, when
  the reply can be written, is answered with the worker's aliveness at that moment and
  the loop goes on with the next message; a STOP message ends the loop, whatever
  follows it; any other payload changes nothing and the loop goes on. Over a whole
  run of messages that hold no STOP and raise nothing, the listener stays in its loop
  and has sent exactly one reply per probe, in order.
\<close>

theorem listener_dispatch:
  "(\<not> closed (pipe l) \<and> incoming t = Inr (PStr TEST_ALIVE_MESSAGE) \<and> reply_fault t = None \<longrightarrow>
      listen_loop l (t # ts) =
        listen_loop
          (l\<lparr>inner_service := (inner_service l)\<lparr>is_alive := alive_now t\<rparr>,
             effects := effects l @ [Send (PBool (alive_now t))]\<rparr>) ts) \<and>
   (\<not> closed (pipe l) \<and> incoming t = Inr (PStr STOP_MESSAGE) \<longrightarrow>
      listen_loop l (t # ts) =
        (Some Break, l\<lparr>inner_service := (inner_service l)\<lparr>is_alive := alive_now t\<rparr>\<rparr>)) \<and>
   (\<not> closed (pipe l) \<and> incoming t = Inr m \<and> m \<noteq> PStr TEST_ALIVE_MESSAGE \<and>
    m \<noteq> PStr STOP_MESSAGE \<longrightarrow>
      listen_loop l (t # ts) =
        listen_loop (l\<lparr>inner_service := (inner_service l)\<lparr>is_alive := alive_now t\<rparr>\<rparr>) ts) \<and>
   (\<not> closed p \<and> list_all benign ts \<longrightarrow>
      fst (listen_to_pipe svc p ts) = Blocked \<and>
      effects (snd (listen_to_pipe svc p ts)) = replies ts)"
proof (intro conjI impI)
  assume "\<not> closed p \<and> list_all benign ts"
  then have b: "fst (listen_loop \<lparr>inner_service = svc, pipe = p, effects = []\<rparr> ts) = None"
    "effects (snd (listen_loop \<lparr>inner_service = svc, pipe = p, effects = []\<rparr> ts)) = replies ts"
    using listen_loop_benign [of "\<lparr>inner_service = svc, pipe = p, effects = []\<rparr>" ts]
    by simp_all
  then show "fst (listen_to_pipe svc p ts) = Blocked"
    by (cases rule: listen_to_pipe_cases [of svc p ts]) simp_all
  from b show "effects (snd (listen_to_pipe svc p ts)) = replies ts"
    by (cases rule: listen_to_pipe_cases [of svc p ts]) simp_all
qed (simp_all add: listen_loop_probe listen_loop_stop listen_loop_other del: listen_loop.simps)

theorem listener_dispatch_witness:
  "listen_loop \<lparr>inner_service = \<lparr>is_alive = True, stop_requests = 0\<rparr>, pipe = \<lparr>closed = False\<rparr>,
       effects = []\<rparr> [probe_turn False] =
     (None, \<lparr>inner_service = \<lparr>is_alive = False, stop_requests = 0\<rparr>, pipe = \<lparr>closed = False\<rparr>,
       effects = [Send (PBool False)]\<rparr>) \<and>
   listen_loop \<lparr>inner_service = \<lparr>is_alive = True, stop_requests = 0\<rparr>, pipe = \<lparr>closed = False\<rparr>,
       effects = []\<rparr> [stop_turn, probe_turn True] =
     (Some Break, \<lparr>inner_service = \<lparr>is_alive = True, stop_requests = 0\<rparr>, pipe = \<lparr>closed = False\<rparr>,
       effects = []\<rparr>) \<and>
   listen_loop \<lparr>inner_service = \<lparr>is_alive = True, stop_requests = 0\<rparr>, pipe = \<lparr>closed = False\<rparr>,
       effects = []\<rparr> [noise_turn] =
     (None, \<lparr>inner_service = \<lparr>is_alive = True, stop_requests = 0\<rparr>, pipe = \<lparr>closed = False\<rparr>,
       effects = []\<rparr>) \<and>
   listen_to_pipe \<lparr>is_alive = True, stop_requests = 0\<rparr> \<lparr>closed = False\<rparr>
       [probe_turn True, noise_turn, probe_turn False] =
     (Blocked, \<lparr>inner_service = \<lparr>is_alive = False, stop_requests = 0\<rparr>, pipe = \<lparr>closed = False\<rparr>,
       effects = [Send (PBool True), Send (PBool False)]\<rparr>)"
proof (intro conjI)
  let ?l = "\<lparr>inner_service = \<lparr>is_alive = True, stop_requests = 0\<rparr>, pipe = \<lparr>closed = False\<rparr>,
       effects = []\<rparr>"
  note c1 = conjunct1 and c2 = conjunct2 [THEN conjunct1]
    and c3 = conjunct2 [THEN conjunct2, THEN conjunct1]
    and c4 = conjunct2 [THEN conjunct2, THEN conjunct2]
  show "listen_loop ?l [probe_turn False] =
     (None, \<lparr>inner_service = \<lparr>is_alive = False, stop_requests = 0\<rparr>, pipe = \<lparr>closed = False\<rparr>,
       effects = [Send (PBool False)]\<rparr>)"
    using listener_dispatch [where l = ?l and t = "probe_turn False" and ts = "[]", THEN c1]
    by (simp add: probe_turn_def TEST_ALIVE_MESSAGE_def del: listen_loop.simps(2))
  show "listen_loop ?l [stop_turn, probe_turn True] = (Some Break, ?l)"
    using listener_dispatch [where l = ?l and t = stop_turn and ts = "[probe_turn True]", THEN c2]
    by (simp add: stop_turn_def STOP_MESSAGE_def del: listen_loop.simps(2))
  show "listen_loop ?l [noise_turn] = (None, ?l)"
    using listener_dispatch [where l = ?l and t = noise_turn and ts = "[]" and m = "PInt 7",
        THEN c3]
    by (simp add: noise_turn_def del: listen_loop.simps(2))
  have b: "list_all benign [probe_turn True, noise_turn, probe_turn False]"
    by (simp add: benign_def example_turns)
  have r: "replies [probe_turn True, noise_turn, probe_turn False] =
      [Send (PBool True), Send (PBool False)]"
    by (simp add: probe_turn_def noise_turn_def TEST_ALIVE_MESSAGE_def)
  have "fst (listen_to_pipe \<lparr>is_alive = True, stop_requests = 0\<rparr> \<lparr>closed = False\<rparr>
       [probe_turn True, noise_turn, probe_turn False]) = Blocked \<and>
     effects (snd (listen_to_pipe \<lparr>is_alive = True, stop_requests = 0\<rparr> \<lparr>closed = False\<rparr>
       [probe_turn True, noise_turn, probe_turn False])) = [Send (PBool True), Send (PBool False)]"
    using listener_dispatch [where p = "\<lparr>closed = False\<rparr>"
        and ts = "[probe_turn True, noise_turn, probe_turn False]"
        and svc = "\<lparr>is_alive = True, stop_requests = 0\<rparr>", THEN c4] b r
    by simp
  then show "listen_to_pipe \<lparr>is_alive = True, stop_requests = 0\<rparr> \<lparr>closed = False\<rparr>
       [probe_turn True, noise_turn, probe_turn False] =
     (Blocked, \<lparr>inner_service = \<lparr>is_alive = False, stop_requests = 0\<rparr>, pipe = \<lparr>closed = False\<rparr>,
       effects = [Send (PBool True), Send (PBool False)]\<rparr>)"
    by (simp add: listen_to_pipe_def probe_turn_def noise_turn_def TEST_ALIVE_MESSAGE_def
        STOP_MESSAGE_def Connection_recv_def Connection_send_def)
qed

section \<open>The child's entry point: when the instance index is published\<close>

text \<open>
  Claim C4, as the code has it. The worker is constructed first, from the environment
  as the child process found it; only then is the instance-index variable set, to the
  decimal string of the supervisor-assigned index, before the listener thread is
  started and before the worker's start, which sees the variable. When the factory
  raises, the variable is never set.
\<close>

theorem instance_index_published_after_construction:
  "(create_service env = Inr svc \<longrightarrow>
      os_environ (start_service_and_listen_queue create_service service_start p idx env ts) =
        env(INSTANCE_INDEX_ENV_VAR \<mapsto> str idx) \<and>
      worker (start_service_and_listen_queue create_service service_start p idx env ts) = Some svc \<and>
      raised (start_service_and_listen_queue create_service service_start p idx env ts) =
        service_start (env(INSTANCE_INDEX_ENV_VAR \<mapsto> str idx)) svc \<and>
      take 4 (main_effects (start_service_and_listen_queue create_service service_start p idx env ts)) =
        [CreateService, SetEnv INSTANCE_INDEX_ENV_VAR (str idx), ThreadStart, ServiceStart]) \<and>
   (create_service env = Inl e \<longrightarrow>
      os_environ (start_service_and_listen_queue create_service service_start p idx env ts) = env \<and>
      raised (start_service_and_listen_queue create_service service_start p idx env ts) = Some e \<and>
      main_effects (start_service_and_listen_queue create_service service_start p idx env ts) =
        CreateService # (if is_Exception e then [LoggingShutdown] else []))"
  by (simp add: start_service_and_listen_queue_def Let_def)

theorem instance_index_published_witness:
  "os_environ (start_service_and_listen_queue index_reading_factory quiet_start \<lparr>closed = False\<rparr>
       3 Map.empty []) INSTANCE_INDEX_ENV_VAR = Some ''3'' \<and>
   raised (start_service_and_listen_queue index_reading_factory quiet_start \<lparr>closed = False\<rparr>
       3 Map.empty []) = None \<and>
   os_environ (start_service_and_listen_queue (\<lambda>env. Inl RuntimeError) quiet_start
       \<lparr>closed = False\<rparr> 3 Map.empty []) INSTANCE_INDEX_ENV_VAR = None"
proof (intro conjI)
  let ?svc = "\<lparr>is_alive = False, stop_requests = 0\<rparr>"
  have f: "index_reading_factory Map.empty = Inr ?svc"
    by (simp add: index_reading_factory_def)
  have s: "str 3 = ''3''"
    by (simp add: str_def str_nat.simps digit_def)
  note t = instance_index_published_after_construction
    [of index_reading_factory Map.empty ?svc quiet_start "\<lparr>closed = False\<rparr>" 3 "[]", THEN conjunct1]
  show "os_environ (start_service_and_listen_queue index_reading_factory quiet_start
       \<lparr>closed = False\<rparr> 3 Map.empty []) INSTANCE_INDEX_ENV_VAR = Some ''3''"
    using t f s by simp
  show "raised (start_service_and_listen_queue index_reading_factory quiet_start \<lparr>closed = False\<rparr>
       3 Map.empty []) = None"
    using t f by (simp add: quiet_start_def)
  show "os_environ (start_service_and_listen_queue (\<lambda>env. Inl RuntimeError) quiet_start
       \<lparr>closed = False\<rparr> 3 Map.empty []) INSTANCE_INDEX_ENV_VAR = None"
    using instance_index_published_after_construction
      [of "\<lambda>env. Inl RuntimeError" Map.empty _ quiet_start "\<lparr>closed = False\<rparr>" 3 "[]" RuntimeError,
        THEN conjunct2]
    by simp
qed

text \<open>
  Claim C4 as stated fails: a factory that looks for the instance index while it
  constructs the worker does not find it, although the variable is set when the entry
  point is done; the construction is the first effect, the assignment the second.
\<close>

theorem instance_index_counterexample:
  "worker (start_service_and_listen_queue index_reading_factory quiet_start \<lparr>closed = False\<rparr>
       3 Map.empty []) = Some \<lparr>is_alive = False, stop_requests = 0\<rparr> \<and>
   os_environ (start_service_and_listen_queue index_reading_factory quiet_start \<lparr>closed = False\<rparr>
       3 Map.empty []) INSTANCE_INDEX_ENV_VAR = Some ''3'' \<and>
   main_effects (start_service_and_listen_queue index_reading_factory quiet_start \<lparr>closed = False\<rparr>
       3 Map.empty []) =
     [CreateService, SetEnv ''MULTI_PROCESS_INSTANCE_INDEX'' ''3'', ThreadStart, ServiceStart]"
  by (simp add: start_service_and_listen_queue_def index_reading_factory_def quiet_start_def
      Let_def str_def str_nat.simps digit_def INSTANCE_INDEX_ENV_VAR_def)

section \<open>SingleProcessHandler: terminate, kill, stop\<close>

lemma process_signal_alive:
  "SingleProcessHandler_is_alive h \<Longrightarrow> process_signal sig h = (None, emit (Signal sig) h)"
  by (auto simp: SingleProcessHandler_is_alive_def process_signal_def Process_is_alive_def
      split: option.splits)

text \<open>
  Claim C7. \<open>terminate\<close> and \<open>kill\<close> never raise. When \<open>is_alive()\<close> is true they send
  the process their signal (SIGTERM, SIGKILL) and change nothing else; otherwise they
  leave the handler exactly as it was, in particular when no process handle exists and
  on a handler that was never started.
\<close>

theorem terminate_kill_guarded:
  "terminate h =
     (None, if SingleProcessHandler_is_alive h then emit (Signal SIGTERM) h else h) \<and>
   kill h =
     (None, if SingleProcessHandler_is_alive h then emit (Signal SIGKILL) h else h) \<and>
   SingleProcessHandler_is_alive h = (process h = Some \<lparr>phase = Started\<rparr>) \<and>
   terminate (h\<lparr>process := None\<rparr>) = (None, h\<lparr>process := None\<rparr>) \<and>
   kill (h\<lparr>process := None\<rparr>) = (None, h\<lparr>process := None\<rparr>) \<and>
   terminate (SingleProcessHandler_init idx interval timeout) =
     (None, SingleProcessHandler_init idx interval timeout) \<and>
   kill (SingleProcessHandler_init idx interval timeout) =
     (None, SingleProcessHandler_init idx interval timeout)"
proof -
  have a: "SingleProcessHandler_is_alive h = (process h = Some \<lparr>phase = Started\<rparr>)"
    by (cases "process h") (auto simp: SingleProcessHandler_is_alive_def Process_is_alive_def)
  have n: "\<not> SingleProcessHandler_is_alive (h\<lparr>process := None\<rparr>)"
    "\<not> SingleProcessHandler_is_alive (SingleProcessHandler_init idx interval timeout)"
    by (simp_all add: SingleProcessHandler_is_alive_def SingleProcessHandler_init_def)
  have t: "terminate h =
      (None, if SingleProcessHandler_is_alive h then emit (Signal SIGTERM) h else h)"
    by (simp add: terminate_def process_signal_alive)
  have k: "kill h = (None, if SingleProcessHandler_is_alive h then emit (Signal SIGKILL) h else h)"
    by (simp add: kill_def process_signal_alive)
  show ?thesis
    using a n t k by (simp add: terminate_def kill_def)
qed

lemma stop_no_pipe:
  "parent_pipe h = None \<Longrightarrow> stop h = (None, h\<lparr>stop_was_called := True\<rparr>)"
  by (simp add: stop_def)

lemma stop_open_pipe:
  "parent_pipe h = Some c \<Longrightarrow> \<not> closed c \<Longrightarrow> \<not> child_end_closed h \<Longrightarrow>
   stop h = (None, emit (Send (PStr STOP_MESSAGE)) (h\<lparr>stop_was_called := True\<rparr>))"
  by (simp add: stop_def parent_pipe_send_def Connection_send_def)

lemma stop_child_end_closed:
  "parent_pipe h = Some c \<Longrightarrow> \<not> closed c \<Longrightarrow> child_end_closed h \<Longrightarrow>
   stop h = (Some BrokenPipeError, h\<lparr>stop_was_called := True\<rparr>)"
  by (simp add: stop_def parent_pipe_send_def Connection_send_def)

lemma stop_twice_open_pipe:
  "parent_pipe h = Some c \<Longrightarrow> \<not> closed c \<Longrightarrow> \<not> child_end_closed h \<Longrightarrow>
   stop (snd (stop h)) =
     (None, h\<lparr>stop_was_called := True,
              trace := trace h @ [Send (PStr STOP_MESSAGE), Send (PStr STOP_MESSAGE)]\<rparr>)"
  by (simp add: stop_def parent_pipe_send_def Connection_send_def emit_def)

text \<open>
  Claim C3 at the input where the code departs from it: the parent endpoint is still
  held but already closed. \<open>stop\<close> sets the signal, then the send raises \<open>OSError\<close>:
  the send is not ignored.
\<close>

theorem stop_raises_on_closed_pipe:
  "stop (h\<lparr>parent_pipe := Some \<lparr>closed = True\<rparr>\<rparr>) =
     (Some OSError, h\<lparr>parent_pipe := Some \<lparr>closed = True\<rparr>, stop_was_called := True\<rparr>)"
  by (simp add: stop_def parent_pipe_send_def Connection_send_def)

section \<open>SingleProcessHandler: the liveness monitor\<close>

lemma liveness_iteration_no_pipe:
  "parent_pipe h = None \<Longrightarrow>
   liveness_iteration h answer =
     (Inr Exit_loop, snd (kill (snd (stop h)))) \<and> fst (stop h) = None"
  by (simp add: liveness_iteration_def liveness_probe_def stop_def kill_def process_signal_alive)

lemma liveness_iteration_open_pipe:
  "parent_pipe h = Some c \<Longrightarrow> \<not> closed c \<Longrightarrow> \<not> child_end_closed h \<Longrightarrow>
   liveness_iteration h answer =
     (case answer of
        Some (Inl e) \<Rightarrow> (Inl e, emit (Send (PStr TEST_ALIVE_MESSAGE)) h)
      | Some (Inr True) \<Rightarrow> (Inr Continue, emit (Send (PStr TEST_ALIVE_MESSAGE)) h)
      | _ \<Rightarrow>
          (Inr Exit_loop, snd (kill (snd (stop (emit (Send (PStr TEST_ALIVE_MESSAGE)) h))))))"
  by (simp add: liveness_iteration_def liveness_probe_def parent_pipe_send_def
        Connection_send_def stop_def kill_def process_signal_alive emit_def
        split: option.splits sum.splits bool.splits)

lemma liveness_iteration_child_end_closed:
  "parent_pipe h = Some c \<Longrightarrow> \<not> closed c \<Longrightarrow> child_end_closed h \<Longrightarrow>
   liveness_iteration h answer = (Inl BrokenPipeError, h)"
  by (simp add: liveness_iteration_def liveness_probe_def parent_pipe_send_def
        Connection_send_def)

lemma liveness_iteration_closed_pipe:
  "parent_pipe h = Some c \<Longrightarrow> closed c \<Longrightarrow>
   liveness_iteration h answer = (Inl OSError, h\<lparr>stop_was_called := True\<rparr>)"
  by (simp add: liveness_iteration_def liveness_probe_def stop_def parent_pipe_send_def
        Connection_send_def)

lemma monitored_state:
  "process_start (start (SingleProcessHandler_init idx interval timeout)) =
     (None,
      \<lparr>instance_index = idx, live_check_interval = interval, live_check_timeout = timeout,
       liveness_thread = True, stop_was_called = False, parent_pipe = Some \<lparr>closed = False\<rparr>,
       process = Some \<lparr>phase = Started\<rparr>, trace = [ProcessStart], child_end_closed = False\<rparr>)"
  by (simp add: process_start_def start_def SingleProcessHandler_init_def emit_def)

lemma run_thread_in_steps:
  "run_thread h exit_callback w =
     (case process_start h of
        (Some e, h') \<Rightarrow> (Some e, h', w)
      | (None, h1) \<Rightarrow>
          (None, emit ExitCallback (close (process_join h1)),
           exit_callback (emit ExitCallback (close (process_join h1))) w))"
  by (simp add: run_thread_def process_start_def process_join_def Let_def emit_def
      split: option.splits)

text \<open>
  Claim C1 at an input where the code departs from it. The handler has been started
  and the exit-wait thread waits in \<open>join\<close>: the child runs, the parent endpoint is
  open. The child closes its endpoint without answering the probe (its listener has
  ended), so no reply arrives: \<open>poll\<close> reports end of file and \<open>recv\<close> raises
  \<open>EOFError\<close>. The exception ends the monitor thread: the stop signal is not set, no
  STOP is sent and \<open>kill\<close> is never issued, while the process is still alive.
\<close>

theorem liveness_check_dies_without_kill:
  "liveness_check (snd (process_start (start (SingleProcessHandler_init 3 1 1))))
     [Some (Inl EOFError)] =
   (Died EOFError,
    \<lparr>instance_index = 3, live_check_interval = 1, live_check_timeout = 1,
     liveness_thread = True, stop_was_called = False, parent_pipe = Some \<lparr>closed = False\<rparr>,
     process = Some \<lparr>phase = Started\<rparr>, trace = [ProcessStart, Send (PStr ''TEST_ALIVE'')],
     child_end_closed = False\<rparr>) \<and>
   SingleProcessHandler_is_alive
     (snd (liveness_check (snd (process_start (start (SingleProcessHandler_init 3 1 1))))
        [Some (Inl EOFError)]))"
  by (simp add: monitored_state liveness_iteration_def liveness_probe_def parent_pipe_send_def
      Connection_send_def emit_def TEST_ALIVE_MESSAGE_def SingleProcessHandler_is_alive_def
      Process_is_alive_def)

section \<open>SingleProcessHandler: the exit-wait thread\<close>

lemma close_clears_pipe: "parent_pipe (close h) = None \<and> process (close h) = process h"
  by (simp add: close_def emit_def)

text \<open>
  Claim C2, as the code has it. Started on a handler whose process was created by
  \<open>start\<close>, the exit-wait thread starts the process, waits for its exit, closes the
  parent endpoint if one is held and makes it absent, and then invokes the callback,
  once and last, on the handler in that state. The process handle is not cleared: it
  still holds the exited process, for which \<open>is_alive()\<close> is false.
\<close>

theorem run_thread_closes_then_calls_back:
  "process h = Some p \<and> phase p = Initial \<longrightarrow>
     fst (run_thread h exit_callback w) = None \<and>
     parent_pipe (fst (snd (run_thread h exit_callback w))) = None \<and>
     process (fst (snd (run_thread h exit_callback w))) = Some (p\<lparr>phase := Exited\<rparr>) \<and>
     \<not> SingleProcessHandler_is_alive (fst (snd (run_thread h exit_callback w))) \<and>
     trace (fst (snd (run_thread h exit_callback w))) =
       trace h @ [ProcessStart, ProcessJoin] @ (if parent_pipe h = None then [] else [Close]) @
       [ExitCallback] \<and>
     snd (snd (run_thread h exit_callback w)) =
       exit_callback (fst (snd (run_thread h exit_callback w))) w"
  by (simp add: run_thread_def Let_def close_def emit_def SingleProcessHandler_is_alive_def
      Process_is_alive_def)

theorem run_thread_witness:
  "fst (run_thread (start (SingleProcessHandler_init 3 60 10)) counting_callback 0) = None \<and>
   parent_pipe (fst (snd (run_thread (start (SingleProcessHandler_init 3 60 10))
       counting_callback 0))) = None \<and>
   trace (fst (snd (run_thread (start (SingleProcessHandler_init 3 60 10)) counting_callback 0))) =
     [ProcessStart, ProcessJoin, Close, ExitCallback] \<and>
   snd (snd (run_thread (start (SingleProcessHandler_init 3 60 10)) counting_callback 0)) = 1"
  using run_thread_closes_then_calls_back
    [of "start (SingleProcessHandler_init 3 60 10)" "\<lparr>phase = Initial\<rparr>" counting_callback 0]
  by (simp add: start_def SingleProcessHandler_init_def counting_callback_def)

text \<open>
  Claim C2 as stated fails: after the exit-wait thread has run, the process handle is
  still there.
\<close>

theorem run_thread_keeps_process_counterexample:
  "process (fst (snd (run_thread (start (SingleProcessHandler_init 3 60 10)) counting_callback 0))) =
     Some \<lparr>phase = Exited\<rparr> \<and>
   process (fst (snd (run_thread (start (SingleProcessHandler_init 3 60 10)) counting_callback 0))) \<noteq>
     None"
  by (simp add: run_thread_def start_def SingleProcessHandler_init_def Let_def close_def emit_def)

end
